theory Spec2Isabelle
  imports Complex_Main "HOL-Library.Option_ord"
begin

section \<open>Data model\<close>

text \<open>
  The handlers of \<^verbatim>\<open>src/index.js\<close> that create a bill (\<^verbatim>\<open>POST /api/bills\<close>) and that
  summarise sales (\<^verbatim>\<open>GET /api/sales/summary\<close>) are embedded here together with the part of
  the relational store they talk to. The table definitions are not part of the sources; the
  columns are those the statements name. The handler binds the fields of the request to its
  inserts without looking at them, so a column filled from the request holds what the
  request holds, and \<^verbatim>\<open>NULL\<close> (\<open>None\<close>) where the request has nothing; identifiers and the
  creation time are given by the store and always hold a value. Amounts are exact rationals,
  quantities integers, row identifiers are drawn from a sequence, and a timestamp is a
  number of seconds whose date is the day it falls in.
\<close>

type_synonym date = int
type_synonym timestamp = int

definition date_of :: "timestamp \<Rightarrow> date" where
  "date_of t = t div 86400"

text \<open>One element of \<^verbatim>\<open>req.body.items\<close>; a field the element does not have is \<open>None\<close>.\<close>

record item =
  product_id :: "string option"
  name :: "string option"
  price :: "rat option"
  mrp :: "rat option"
  quantity :: "int option"

text \<open>A row of \<^verbatim>\<open>bills\<close> and a row of \<^verbatim>\<open>bill_items\<close>.\<close>

record bill_row =
  b_id :: nat
  b_total_amount :: "rat option"
  b_total_mrp :: "rat option"
  b_total_savings :: "rat option"
  b_created_by :: "string option"
  b_created_at :: timestamp

record bill_item_row =
  bi_id :: nat
  bi_bill_id :: nat
  bi_product_id :: "string option"
  bi_name :: "string option"
  bi_price :: "rat option"
  bi_mrp :: "rat option"
  bi_quantity :: "int option"

text \<open>
  The \<^verbatim>\<open>items\<close> field of the request body: absent (or any falsy value), present but not
  an array, or an array of items.
\<close>

datatype items_field = Missing | NotAnArray | Array "item list"

record bill_request =
  items :: items_field
  total_amount :: "rat option"
  total_mrp :: "rat option"
  total_savings :: "rat option"
  created_by :: "string option"

text \<open>The query string of the summary request; a parameter that is not sent is \<open>None\<close>.\<close>

record summary_request =
  start :: "string option"
  end_date :: "string option"
  groupBy :: "string option"

text \<open>A value of a result column: SQL \<^verbatim>\<open>NULL\<close> or a number.\<close>

datatype sqlval = Null | Num rat

text \<open>The row of the bill-level totals and a row of the product ranking.\<close>

record totals_row =
  total_bills :: sqlval
  total_sales :: sqlval
  total_savings_sum :: sqlval
  total_mrp_sum :: sqlval

record top_row =
  product_name :: "string option"
  total_quantity :: sqlval
  total_revenue :: sqlval
  total_mrp_value :: sqlval

text \<open>
  The bill read back after the commit: the bill's columns and the \<^verbatim>\<open>json_agg\<close> of its
  items; the left join gives one all-null object (\<open>None\<close>) to a bill that has no item.
\<close>

record complete_bill =
  cb_bill :: bill_row
  cb_items :: "bill_item_row option list"

record summary =
  s_total_bills :: sqlval
  s_total_sales :: sqlval
  s_total_savings :: sqlval
  s_total_mrp :: sqlval
  s_total_items_sold :: sqlval
  s_top_products :: "top_row list"

datatype body =
    ErrorBody string
  | BillBody "complete_bill option"
  | SummaryBody summary

record response =
  status :: nat
  body :: body

section \<open>The store\<close>

text \<open>
  Every statement the handlers send, with the values bound to it. The three summary
  statements carry the text spliced into them and the parameter array.
\<close>

datatype cmd =
    Connect
  | Begin
  | InsertBill "rat option" "rat option" "rat option" "string option"
  | InsertItem nat item
  | Commit
  | Rollback
  | SelectBill nat
  | Release
  | SummaryQuery string "string list"
  | ItemsSoldQuery string "string list"
  | TopProductsQuery string "string list"

datatype rows =
    NoRows
  | BillRows "bill_row list"
  | CompleteRows "complete_bill list"
  | TotalsRows "totals_row list"
  | ItemsSoldRows "sqlval list"
  | TopRows "top_row list"

text \<open>
  The store as the handlers see it: the committed tables (what any reader sees), the
  transaction of the pooled connection with its uncommitted rows, the two identifier
  sequences, the clock, the cast from text to date, the order in which the store happens to
  produce the groups of a grouped statement (\<open>group_rank\<close>, of which nothing is known), and
  the pool's counters. The last four fields are for the analysis: \<open>faults\<close> says which call
  to the store fails and with which message (calls are numbered by \<open>ncalls\<close>), \<open>trace\<close>
  lists the calls made with their outcome, and \<open>views\<close> lists the committed tables as a
  reader finds them after each call.
\<close>

record store =
  bills :: "bill_row list"
  bill_items :: "bill_item_row list"
  tx_open :: bool
  tx_bills :: "bill_row list"
  tx_items :: "bill_item_row list"
  bill_seq :: nat
  item_seq :: nat
  now :: timestamp
  cast_date :: "string \<Rightarrow> date option"
  group_rank :: "string option \<times> string option \<Rightarrow> nat"
  checked_out :: nat
  releases :: nat
  faults :: "nat \<Rightarrow> string option"
  ncalls :: nat
  trace :: "(cmd \<times> string option) list"
  views :: "(bill_row list \<times> bill_item_row list) list"

definition visible :: "store \<Rightarrow> bill_row list \<times> bill_item_row list" where
  "visible s = (bills s, bill_items s)"


subsection \<open>The filter text and its meaning\<close>

text \<open>
  The summary handler builds its \<^verbatim>\<open>WHERE\<close> clause as text and splices it into three
  statements. The store reads that text again: it is cut into words at the blanks, each
  condition is a column cast to a date, a comparison and a numbered parameter, and a column
  is looked up among the tables of the \<^verbatim>\<open>FROM\<close> clause of the statement.
\<close>

fun split_on :: "char \<Rightarrow> string \<Rightarrow> string list" where
  "split_on c [] = [[]]"
| "split_on c (x # xs) =
     (if x = c then [] # split_on c xs
      else (case split_on c xs of [] \<Rightarrow> [[x]] | w # ws \<Rightarrow> (x # w) # ws))"

definition tokens :: "string \<Rightarrow> string list" where
  "tokens t = filter (\<lambda>w. w \<noteq> []) (split_on CHR '' '' t)"

definition digit_val :: "char \<Rightarrow> nat option" where
  "digit_val c =
     (if (48::nat) \<le> of_char c \<and> of_char c \<le> (57::nat) then Some (of_char c - 48) else None)"

fun parse_digits :: "nat \<Rightarrow> string \<Rightarrow> nat option" where
  "parse_digits acc [] = Some acc"
| "parse_digits acc (c # cs) =
     (case digit_val c of None \<Rightarrow> None | Some d \<Rightarrow> parse_digits (10 * acc + d) cs)"

definition parse_param :: "string \<Rightarrow> nat option" where
  "parse_param t =
     (case t of
        c # d # ds \<Rightarrow> if c = CHR ''$'' then parse_digits 0 (d # ds) else None
      | _ \<Rightarrow> None)"

datatype cmp = Ge | Le

definition parse_cmp :: "string \<Rightarrow> cmp option" where
  "parse_cmp t = (if t = ''>='' then Some Ge else if t = ''<='' then Some Le else None)"

text \<open>A condition: the table alias if one is written, the column, the comparison, the parameter.\<close>

datatype cond = Cond "string option" string cmp nat

definition parse_colref :: "string \<Rightarrow> (string option \<times> string) option" where
  "parse_colref t =
     (let n = length t in
      if 6 < n \<and> drop (n - 6) t = ''::date'' then
        (case split_on CHR ''.'' (take (n - 6) t) of
           [c] \<Rightarrow> Some (None, c)
         | [a, c] \<Rightarrow> Some (Some a, c)
         | _ \<Rightarrow> None)
      else None)"

definition parse_cond :: "string \<Rightarrow> string \<Rightarrow> string \<Rightarrow> cond option" where
  "parse_cond c opr p =
     (case parse_colref c of
        None \<Rightarrow> None
      | Some (a, col) \<Rightarrow>
          (case parse_cmp opr of
             None \<Rightarrow> None
           | Some k \<Rightarrow>
               (case parse_param p of
                  None \<Rightarrow> None
                | Some n \<Rightarrow> Some (Cond a col k n))))"

fun parse_conds :: "string list \<Rightarrow> cond list option" where
  "parse_conds [c, opr, p] = map_option (\<lambda>x. [x]) (parse_cond c opr p)"
| "parse_conds (c # opr # p # a # rest) =
     (if a = ''AND'' then
        (case parse_cond c opr p of
           None \<Rightarrow> None
         | Some x \<Rightarrow> map_option ((#) x) (parse_conds rest))
      else None)"
| "parse_conds _ = None"

definition parse_where :: "string \<Rightarrow> cond list option" where
  "parse_where t =
     (case tokens t of
        [] \<Rightarrow> Some []
      | w # ws \<Rightarrow> if w = ''WHERE'' then parse_conds ws else None)"

text \<open>
  The tables a statement reads: \<^verbatim>\<open>FROM bills\<close>, or
  \<^verbatim>\<open>FROM bills b JOIN bill_items bi ON b.id = bi.bill_id\<close>. Only the creation time of a
  bill is compared in a filter; it is a column of \<^verbatim>\<open>bills\<close> alone, reachable without a
  table name, or through the name the \<^verbatim>\<open>FROM\<close> clause gives the table.
\<close>

datatype scope = FromBills | FromBillsJoinItems

definition table_name :: "scope \<Rightarrow> string" where
  "table_name sc = (case sc of FromBills \<Rightarrow> ''bills'' | FromBillsJoinItems \<Rightarrow> ''b'')"

definition column_date :: "scope \<Rightarrow> string option \<Rightarrow> string \<Rightarrow> string + (bill_row \<Rightarrow> date)" where
  "column_date sc a col =
     (case a of
        Some t \<Rightarrow>
          if t \<noteq> table_name sc then Inl (''missing FROM-clause entry for table '' @ t)
          else if col = ''created_at'' then Inr (\<lambda>b. date_of (b_created_at b))
          else Inl (''column '' @ t @ ''.'' @ col @ '' does not exist'')
      | None \<Rightarrow>
          if col = ''created_at'' then Inr (\<lambda>b. date_of (b_created_at b))
          else Inl (''column '' @ col @ '' does not exist''))"

fun compile_cond ::
  "(string \<Rightarrow> date option) \<Rightarrow> scope \<Rightarrow> string list \<Rightarrow> cond \<Rightarrow> string + (bill_row \<Rightarrow> bool)" where
  "compile_cond cast sc ps (Cond a col k n) =
     (case column_date sc a col of
        Inl e \<Rightarrow> Inl e
      | Inr f \<Rightarrow>
          if n = 0 \<or> length ps < n then Inl ''there is no parameter''
          else (case cast (ps ! (n - 1)) of
                  None \<Rightarrow> Inl ''invalid input syntax for type date''
                | Some d \<Rightarrow> Inr (\<lambda>b. case k of Ge \<Rightarrow> d \<le> f b | Le \<Rightarrow> f b \<le> d)))"

fun compile_conds ::
  "(string \<Rightarrow> date option) \<Rightarrow> scope \<Rightarrow> string list \<Rightarrow> cond list \<Rightarrow> string + (bill_row \<Rightarrow> bool)" where
  "compile_conds cast sc ps [] = Inr (\<lambda>b. True)"
| "compile_conds cast sc ps (c # cs) =
     (case compile_cond cast sc ps c of
        Inl e \<Rightarrow> Inl e
      | Inr p \<Rightarrow>
          (case compile_conds cast sc ps cs of
             Inl e \<Rightarrow> Inl e
           | Inr q \<Rightarrow> Inr (\<lambda>b. p b \<and> q b)))"

definition compile_where ::
  "(string \<Rightarrow> date option) \<Rightarrow> scope \<Rightarrow> string \<Rightarrow> string list \<Rightarrow> string + (bill_row \<Rightarrow> bool)" where
  "compile_where cast sc t ps =
     (case parse_where t of
        None \<Rightarrow> Inl ''syntax error''
      | Some cs \<Rightarrow> compile_conds cast sc ps cs)"

text \<open>The bills a filter text selects, in a statement over the given tables.\<close>

definition select_bills :: "store \<Rightarrow> scope \<Rightarrow> string \<Rightarrow> string list \<Rightarrow> string + bill_row list" where
  "select_bills s sc t ps =
     (case compile_where (cast_date s) sc t ps of
        Inl e \<Rightarrow> Inl e
      | Inr p \<Rightarrow> Inr (filter p (bills s)))"

subsection \<open>Aggregates\<close>

text \<open>
  \<^verbatim>\<open>SUM\<close> adds the values that are not \<^verbatim>\<open>NULL\<close>, and is \<^verbatim>\<open>NULL\<close> when there is none: over
  no row at all, or over rows that are all \<^verbatim>\<open>NULL\<close>. \<^verbatim>\<open>COUNT(*)\<close> counts rows. A product
  is \<^verbatim>\<open>NULL\<close> as soon as one factor is.
\<close>

primrec present :: "'a option list \<Rightarrow> 'a list" where
  "present [] = []"
| "present (x # xs) = (case x of None \<Rightarrow> present xs | Some v \<Rightarrow> v # present xs)"

definition sql_sum :: "rat option list \<Rightarrow> sqlval" where
  "sql_sum xs = (if present xs = [] then Null else Num (sum_list (present xs)))"

definition sql_times :: "rat option \<Rightarrow> int option \<Rightarrow> rat option" where
  "sql_times a n =
     (case a of
        None \<Rightarrow> None
      | Some x \<Rightarrow> (case n of None \<Rightarrow> None | Some k \<Rightarrow> Some (x * of_int k)))"

definition totals :: "bill_row list \<Rightarrow> totals_row" where
  "totals B =
     \<lparr>total_bills = Num (of_nat (length B)),
      total_sales = sql_sum (map b_total_amount B),
      total_savings_sum = sql_sum (map b_total_savings B),
      total_mrp_sum = sql_sum (map b_total_mrp B)\<rparr>"

text \<open>\<^verbatim>\<open>bills b JOIN bill_items bi ON b.id = bi.bill_id\<close>\<close>

definition join_items :: "bill_row list \<Rightarrow> bill_item_row list \<Rightarrow> (bill_row \<times> bill_item_row) list" where
  "join_items B I = concat (map (\<lambda>b. map (Pair b) (filter (\<lambda>i. b_id b = bi_bill_id i) I)) B)"

definition items_sold :: "(bill_row \<times> bill_item_row) list \<Rightarrow> sqlval" where
  "items_sold js = sql_sum (map (\<lambda>j. map_option of_int (bi_quantity (snd j))) js)"

text \<open>
  \<^verbatim>\<open>GROUP BY bi.name, bi.product_id\<close> and the three sums of a group; rows without a name
  (or without a product id) fall into one group.
\<close>

definition group_key :: "bill_row \<times> bill_item_row \<Rightarrow> string option \<times> string option" where
  "group_key j = (bi_name (snd j), bi_product_id (snd j))"

definition group_row ::
  "string option \<times> string option \<Rightarrow> (bill_row \<times> bill_item_row) list \<Rightarrow> top_row" where
  "group_row k js =
     (let g = filter (\<lambda>j. group_key j = k) js in
      \<lparr>product_name = fst k,
       total_quantity = sql_sum (map (\<lambda>j. map_option of_int (bi_quantity (snd j))) g),
       total_revenue =
         sql_sum (map (\<lambda>j. sql_times (bi_price (snd j)) (bi_quantity (snd j))) g),
       total_mrp_value =
         sql_sum (map (\<lambda>j. sql_times (bi_mrp (snd j)) (bi_quantity (snd j))) g)\<rparr>)"

text \<open>
  \<^verbatim>\<open>ORDER BY total_revenue DESC\<close>: in descending order \<^verbatim>\<open>NULL\<close> comes before every
  number. The key below is least for \<^verbatim>\<open>NULL\<close> and grows as the number falls.
\<close>

definition desc_key :: "sqlval \<Rightarrow> rat option" where
  "desc_key v = (case v of Null \<Rightarrow> None | Num x \<Rightarrow> Some (- x))"

text \<open>
  \<^verbatim>\<open>ORDER BY total_revenue DESC LIMIT 10\<close> over the groups. The statement does not say in
  which order groups of equal revenue come, nor which of them the limit keeps: that is the
  store's, given by \<open>rank\<close>, about which nothing is assumed; the ordering by revenue keeps
  groups of equal revenue as it finds them.
\<close>

definition top_products_of ::
  "(string option \<times> string option \<Rightarrow> nat) \<Rightarrow> (bill_row \<times> bill_item_row) list \<Rightarrow> top_row list" where
  "top_products_of rank js =
     take 10 (sort_key (\<lambda>r. desc_key (total_revenue r))
                (map (\<lambda>k. group_row k js) (sort_key rank (remdups (map group_key js)))))"

subsection \<open>Running a statement\<close>

definition new_bill ::
  "store \<Rightarrow> rat option \<Rightarrow> rat option \<Rightarrow> rat option \<Rightarrow> string option \<Rightarrow> bill_row" where
  "new_bill s a m sv u =
     \<lparr>b_id = bill_seq s, b_total_amount = a, b_total_mrp = m, b_total_savings = sv,
      b_created_by = u, b_created_at = now s\<rparr>"

definition new_item :: "nat \<Rightarrow> nat \<Rightarrow> item \<Rightarrow> bill_item_row" where
  "new_item k billId it =
     \<lparr>bi_id = k, bi_bill_id = billId, bi_product_id = product_id it, bi_name = name it,
      bi_price = price it, bi_mrp = mrp it, bi_quantity = quantity it\<rparr>"

definition complete :: "store \<Rightarrow> bill_row \<Rightarrow> complete_bill" where
  "complete s b =
     (let its = filter (\<lambda>i. b_id b = bi_bill_id i) (bill_items s) in
      \<lparr>cb_bill = b, cb_items = (if its = [] then [None] else map Some its)\<rparr>)"

text \<open>
  What the store does with a statement that reaches it. A write inside an open transaction
  stays with the connection until \<^verbatim>\<open>COMMIT\<close>; without one it is committed at once.
  \<^verbatim>\<open>COMMIT\<close> and \<^verbatim>\<open>ROLLBACK\<close> outside a transaction only warn. Reads go through the pool
  and see the committed tables.
\<close>

fun run :: "cmd \<Rightarrow> store \<Rightarrow> (string + rows) \<times> store" where
  "run Connect s = (Inr NoRows, s\<lparr>checked_out := checked_out s + 1\<rparr>)"
| "run Begin s = (Inr NoRows, s\<lparr>tx_open := True\<rparr>)"
| "run (InsertBill a m sv u) s =
     (let r = new_bill s a m sv u in
      (Inr (BillRows [r]),
       if tx_open s then s\<lparr>tx_bills := tx_bills s @ [r], bill_seq := bill_seq s + 1\<rparr>
       else s\<lparr>bills := bills s @ [r], bill_seq := bill_seq s + 1\<rparr>))"
| "run (InsertItem billId it) s =
     (let r = new_item (item_seq s) billId it in
      (Inr NoRows,
       if tx_open s then s\<lparr>tx_items := tx_items s @ [r], item_seq := item_seq s + 1\<rparr>
       else s\<lparr>bill_items := bill_items s @ [r], item_seq := item_seq s + 1\<rparr>))"
| "run Commit s =
     (Inr NoRows,
      if tx_open s then
        s\<lparr>bills := bills s @ tx_bills s, bill_items := bill_items s @ tx_items s,
          tx_open := False, tx_bills := [], tx_items := []\<rparr>
      else s)"
| "run Rollback s = (Inr NoRows, s\<lparr>tx_open := False, tx_bills := [], tx_items := []\<rparr>)"
| "run (SelectBill billId) s =
     (Inr (CompleteRows (map (complete s) (filter (\<lambda>b. b_id b = billId) (bills s)))), s)"
| "run Release s =
     (Inr NoRows, s\<lparr>checked_out := checked_out s - 1, releases := releases s + 1\<rparr>)"
| "run (SummaryQuery t ps) s =
     (case compile_where (cast_date s) FromBills t ps of
        Inl e \<Rightarrow> (Inl e, s)
      | Inr p \<Rightarrow> (Inr (TotalsRows [totals (filter p (bills s))]), s))"
| "run (ItemsSoldQuery t ps) s =
     (case compile_where (cast_date s) FromBillsJoinItems t ps of
        Inl e \<Rightarrow> (Inl e, s)
      | Inr p \<Rightarrow>
          (Inr (ItemsSoldRows
                 [items_sold (filter (\<lambda>j. p (fst j)) (join_items (bills s) (bill_items s)))]),
           s))"
| "run (TopProductsQuery t ps) s =
     (case compile_where (cast_date s) FromBillsJoinItems t ps of
        Inl e \<Rightarrow> (Inl e, s)
      | Inr p \<Rightarrow>
          (Inr (TopRows
                 (top_products_of (group_rank s)
                    (filter (\<lambda>j. p (fst j)) (join_items (bills s) (bill_items s))))),
           s))"

text \<open>
  A call to the store: it fails with the message \<open>faults\<close> holds for it, or it runs. Either
  way the call is counted and recorded, with what a reader sees once it is over.
\<close>

definition observe :: "cmd \<Rightarrow> string option \<Rightarrow> store \<Rightarrow> store" where
  "observe c e s =
     s\<lparr>ncalls := ncalls s + 1, trace := trace s @ [(c, e)], views := views s @ [visible s]\<rparr>"

definition call :: "cmd \<Rightarrow> store \<Rightarrow> (string + rows) \<times> store" where
  "call c s =
     (case faults s (ncalls s) of
        Some m \<Rightarrow> (Inl m, observe c (Some m) s)
      | None \<Rightarrow>
          (case run c s of
             (Inl e, s') \<Rightarrow> (Inl e, observe c (Some e) s')
           | (Inr r, s') \<Rightarrow> (Inr r, observe c None s')))"

text \<open>\<^verbatim>\<open>client.release()\<close> hands the connection back; it does not go to the server.\<close>

definition client_release :: "store \<Rightarrow> store" where
  "client_release s = (snd (run Release s))\<lparr>trace := trace s @ [(Release, None)]\<rparr>"

section \<open>\<^verbatim>\<open>POST /api/bills\<close>\<close>

text \<open>The loop over \<^verbatim>\<open>items\<close>: one insert after the other, stopping at the first that throws.\<close>

fun insert_items :: "nat \<Rightarrow> item list \<Rightarrow> store \<Rightarrow> (string + unit) \<times> store" where
  "insert_items billId [] s = (Inr (), s)"
| "insert_items billId (it # its) s =
     (case call (InsertItem billId it) s of
        (Inl e, s') \<Rightarrow> (Inl e, s')
      | (Inr r, s') \<Rightarrow> insert_items billId its s')"

definition created :: "rows \<Rightarrow> response" where
  "created r =
     \<lparr>status = 201,
      body = BillBody (case r of CompleteRows (c # cs) \<Rightarrow> Some c | _ \<Rightarrow> None)\<rparr>"

definition bad_request :: response where
  "bad_request = \<lparr>status = 400, body = ErrorBody ''Items array is required''\<rparr>"

definition server_error :: "string \<Rightarrow> response" where
  "server_error e = \<lparr>status = 500, body = ErrorBody e\<rparr>"

text \<open>From the commit to the response.\<close>

definition commit_and_read :: "nat \<Rightarrow> store \<Rightarrow> (string + response) \<times> store" where
  "commit_and_read billId s =
     (case call Commit s of
        (Inl e, s1) \<Rightarrow> (Inl e, s1)
      | (Inr r, s1) \<Rightarrow>
          (case call (SelectBill billId) s1 of
             (Inl e, s2) \<Rightarrow> (Inl e, s2)
           | (Inr completeBill, s2) \<Rightarrow> (Inr (created completeBill), s2)))"

text \<open>The inserts: the bill, whose id is read from the returned row, then its items.\<close>

definition insert_all :: "bill_request \<Rightarrow> item list \<Rightarrow> store \<Rightarrow> (string + nat) \<times> store" where
  "insert_all req its s =
     (case call (InsertBill (total_amount req) (total_mrp req) (total_savings req)
                   (created_by req)) s of
        (Inl e, s1) \<Rightarrow> (Inl e, s1)
      | (Inr billResult, s1) \<Rightarrow>
          (case billResult of
             BillRows (b # bs) \<Rightarrow>
               (case insert_items (b_id b) its s1 of
                  (Inl e, s2) \<Rightarrow> (Inl e, s2)
                | (Inr u, s2) \<Rightarrow> (Inr (b_id b), s2))
           | _ \<Rightarrow> (Inl ''TypeError'', s1)))"

text \<open>The body of the \<^verbatim>\<open>try\<close>: \<open>Inl\<close> is the exception thrown, \<open>Inr\<close> the response sent.\<close>

definition try_block :: "bill_request \<Rightarrow> store \<Rightarrow> (string + response) \<times> store" where
  "try_block req s =
     (case call Begin s of
        (Inl e, s1) \<Rightarrow> (Inl e, s1)
      | (Inr r, s1) \<Rightarrow>
          (case items req of
             Missing \<Rightarrow> (Inr bad_request, s1)
           | NotAnArray \<Rightarrow> (Inr bad_request, s1)
           | Array its \<Rightarrow>
               if its = [] then (Inr bad_request, s1)
               else
                 (case insert_all req its s1 of
                    (Inl e, s2) \<Rightarrow> (Inl e, s2)
                  | (Inr billId, s2) \<Rightarrow> commit_and_read billId s2)))"

text \<open>
  The \<^verbatim>\<open>catch\<close>: roll back, then answer 500 with the message. When the rollback itself
  throws, the handler's promise rejects and no response is sent (\<open>None\<close>).
\<close>

definition catch_block :: "string \<Rightarrow> store \<Rightarrow> response option \<times> store" where
  "catch_block err s =
     (case call Rollback s of
        (Inl e, s1) \<Rightarrow> (None, s1)
      | (Inr r, s1) \<Rightarrow> (Some (server_error err), s1))"

text \<open>
  The handler. \<^verbatim>\<open>pool.connect()\<close> is awaited before the \<^verbatim>\<open>try\<close>: when it throws there is
  no connection, no response and nothing to release. After it, the \<^verbatim>\<open>finally\<close> releases the
  connection whatever happened.
\<close>

definition createBill :: "bill_request \<Rightarrow> store \<Rightarrow> response option \<times> store" where
  "createBill req s =
     (case call Connect s of
        (Inl e, s1) \<Rightarrow> (None, s1)
      | (Inr client, s1) \<Rightarrow>
          (case try_block req s1 of
             (Inr res, s2) \<Rightarrow> (Some res, client_release s2)
           | (Inl err, s2) \<Rightarrow>
               (case catch_block err s2 of (res, s3) \<Rightarrow> (res, client_release s3))))"

section \<open>\<^verbatim>\<open>GET /api/sales/summary\<close>\<close>

text \<open>JavaScript's test \<^verbatim>\<open>if (start)\<close> on a query parameter: sent, and not the empty string.\<close>

definition given :: "string option \<Rightarrow> bool" where
  "given p = (case p of None \<Rightarrow> False | Some v \<Rightarrow> v \<noteq> [])"

text \<open>A number inside a template literal.\<close>

function show_nat :: "nat \<Rightarrow> string" where
  "show_nat n =
     (if n < 10 then [char_of (48 + n)]
      else show_nat (n div 10) @ [char_of (48 + n mod 10)])"
  by pat_completeness auto
termination
  by (relation "measure id") auto

declare show_nat.simps [simp del]

text \<open>\<^verbatim>\<open>conditions.join(' AND ')\<close>\<close>

fun join_with :: "string \<Rightarrow> string list \<Rightarrow> string" where
  "join_with sep [] = []"
| "join_with sep [x] = x"
| "join_with sep (x # y # ys) = x @ sep @ join_with sep (y # ys)"

text \<open>\<^verbatim>\<open>whereClause.replace(/b\./g, '')\<close>: every \<^verbatim>\<open>b.\<close> is taken out, from left to right.\<close>

fun strip_alias :: "string \<Rightarrow> string" where
  "strip_alias (c # d # r) =
     (if c = CHR ''b'' \<and> d = CHR ''.'' then strip_alias r else c # strip_alias (d # r))"
| "strip_alias [c] = [c]"
| "strip_alias [] = []"

text \<open>
  One \<^verbatim>\<open>if (start) { conditions.push(...); queryParams.push(start); }\<close>, for the
  comparison \<open>opr\<close> and the parameter \<open>p\<close>.
\<close>

definition push_condition ::
  "string \<Rightarrow> string option \<Rightarrow> string list \<times> string list \<Rightarrow> string list \<times> string list" where
  "push_condition opr p acc =
     (case acc of
        (conditions, queryParams) \<Rightarrow>
          (case p of
             None \<Rightarrow> acc
           | Some v \<Rightarrow>
               if v = [] then acc
               else (conditions @
                       [''b.created_at::date '' @ opr @ '' $'' @
                          show_nat (length queryParams + 1)],
                     queryParams @ [v])))"

text \<open>\<^verbatim>\<open>whereClause\<close> and \<^verbatim>\<open>queryParams\<close>.\<close>

definition build_filter :: "summary_request \<Rightarrow> string \<times> string list" where
  "build_filter req =
     (if given (start req) \<or> given (end_date req) then
        (case push_condition ''<='' (end_date req)
                (push_condition ''>='' (start req) ([], [])) of
           (conditions, queryParams) \<Rightarrow>
             ('' WHERE '' @ join_with '' AND '' conditions, queryParams))
      else ([], []))"

text \<open>What is spliced into the statement that reads \<^verbatim>\<open>bills\<close> without an alias.\<close>

definition spliced :: "string \<Rightarrow> string" where
  "spliced whereClause = (if whereClause \<noteq> [] then strip_alias whereClause else [])"

text \<open>\<^verbatim>\<open>summaryResult.rows[0] || {total_bills: 0, total_sales: 0, total_savings: 0, total_mrp: 0}\<close>\<close>

definition first_totals :: "rows \<Rightarrow> totals_row" where
  "first_totals r =
     (case r of
        TotalsRows (t # ts) \<Rightarrow> t
      | _ \<Rightarrow> \<lparr>total_bills = Num 0, total_sales = Num 0, total_savings_sum = Num 0,
              total_mrp_sum = Num 0\<rparr>)"

text \<open>\<^verbatim>\<open>(itemsResult.rows[0] && itemsResult.rows[0].total_items_sold) || 0\<close>\<close>

definition truthy :: "sqlval \<Rightarrow> bool" where
  "truthy v = (case v of Null \<Rightarrow> False | Num n \<Rightarrow> n \<noteq> 0)"

definition first_items_sold :: "rows \<Rightarrow> sqlval" where
  "first_items_sold r =
     (case r of
        ItemsSoldRows (v # vs) \<Rightarrow> if truthy v then v else Num 0
      | _ \<Rightarrow> Num 0)"

definition top_rows :: "rows \<Rightarrow> top_row list" where
  "top_rows r = (case r of TopRows ts \<Rightarrow> ts | _ \<Rightarrow> [])"

definition make_summary :: "rows \<Rightarrow> rows \<Rightarrow> rows \<Rightarrow> summary" where
  "make_summary summaryResult itemsResult topProductsResult =
     (let t = first_totals summaryResult in
      \<lparr>s_total_bills = total_bills t, s_total_sales = total_sales t,
       s_total_savings = total_savings_sum t, s_total_mrp = total_mrp_sum t,
       s_total_items_sold = first_items_sold itemsResult,
       s_top_products = top_rows topProductsResult\<rparr>)"

text \<open>
  The handler: the filter, then the three statements one after the other; the first that
  throws ends the request with a 500.
\<close>

definition getSalesSummary :: "summary_request \<Rightarrow> store \<Rightarrow> response \<times> store" where
  "getSalesSummary req s =
     (case build_filter req of
        (whereClause, queryParams) \<Rightarrow>
          (case call (SummaryQuery (spliced whereClause) queryParams) s of
             (Inl e, s1) \<Rightarrow> (server_error e, s1)
           | (Inr summaryResult, s1) \<Rightarrow>
               (case call (ItemsSoldQuery whereClause queryParams) s1 of
                  (Inl e, s2) \<Rightarrow> (server_error e, s2)
                | (Inr itemsResult, s2) \<Rightarrow>
                    (case call (TopProductsQuery whereClause queryParams) s2 of
                       (Inl e, s3) \<Rightarrow> (server_error e, s3)
                     | (Inr topProductsResult, s3) \<Rightarrow>
                         (\<lparr>status = 200,
                           body = SummaryBody
                                    (make_summary summaryResult itemsResult
                                       topProductsResult)\<rparr>,
                          s3)))))"

section \<open>Notions used in the statements\<close>

text \<open>The rows the loop writes for the items, in the order of the items.\<close>

primrec item_rows :: "nat \<Rightarrow> nat \<Rightarrow> item list \<Rightarrow> bill_item_row list" where
  "item_rows k billId [] = []"
| "item_rows k billId (it # its) = new_item k billId it # item_rows (Suc k) billId its"

text \<open>The bill row a request leads to, from a given state of the store.\<close>

definition persisted_bill :: "bill_request \<Rightarrow> store \<Rightarrow> bill_row" where
  "persisted_bill req s =
     new_bill s (total_amount req) (total_mrp req) (total_savings req) (created_by req)"

text \<open>The statements of the \<^verbatim>\<open>try\<close> block, in the order of the source.\<close>

definition script :: "bill_request \<Rightarrow> nat \<Rightarrow> item list \<Rightarrow> cmd list" where
  "script req billId its =
     [Begin, InsertBill (total_amount req) (total_mrp req) (total_savings req) (created_by req)] @
     map (InsertItem billId) its @ [Commit, SelectBill billId]"

text \<open>No call numbered from \<open>a\<close> up to, and not including, \<open>b\<close> fails.\<close>

definition no_fault :: "store \<Rightarrow> nat \<Rightarrow> nat \<Rightarrow> bool" where
  "no_fault s a b = list_all (\<lambda>j. faults s j = None) [a..<b]"

text \<open>The store once \<^verbatim>\<open>pool.connect()\<close> has handed out a connection.\<close>

definition connected :: "store \<Rightarrow> store" where
  "connected s = observe Connect None (s\<lparr>checked_out := checked_out s + 1\<rparr>)"

text \<open>What a reader sees once the bill and all its items are committed.\<close>

definition full_view ::
  "bill_request \<Rightarrow> store \<Rightarrow> item list \<Rightarrow> bill_row list \<times> bill_item_row list" where
  "full_view req s its =
     (bills s @ [persisted_bill req s],
      bill_items s @ item_rows (item_seq s) (bill_seq s) its)"

text \<open>
  What readers can see while one request is handled (the committed tables after each of
  its calls), and the statements that request sends, in order.
\<close>

definition observed :: "bill_request \<Rightarrow> store \<Rightarrow> (bill_row list \<times> bill_item_row list) list" where
  "observed req s = drop (length (views s)) (views (snd (createBill req s)))"

definition issued :: "bill_request \<Rightarrow> store \<Rightarrow> cmd list" where
  "issued req s = map fst (drop (length (trace s)) (trace (snd (createBill req s))))"

definition is_insert :: "cmd \<Rightarrow> bool" where
  "is_insert c = (case c of InsertBill a m sv u \<Rightarrow> True | InsertItem b it \<Rightarrow> True | _ \<Rightarrow> False)"

text \<open>The item a row of \<^verbatim>\<open>bill_items\<close> was written from.\<close>

definition item_of_row :: "bill_item_row \<Rightarrow> item" where
  "item_of_row r =
     \<lparr>product_id = bi_product_id r, name = bi_name r, price = bi_price r, mrp = bi_mrp r,
      quantity = bi_quantity r\<rparr>"

text \<open>
  The date a parameter of the summary stands for: none when the parameter is not given,
  else what the store reads in it. A parameter is readable when, if given, the store can
  read it as a date.
\<close>

definition bound :: "store \<Rightarrow> string option \<Rightarrow> date option" where
  "bound s p = (case p of None \<Rightarrow> None | Some v \<Rightarrow> if v = [] then None else cast_date s v)"

definition readable :: "store \<Rightarrow> string option \<Rightarrow> bool" where
  "readable s p = (case p of None \<Rightarrow> True | Some v \<Rightarrow> v = [] \<or> cast_date s v \<noteq> None)"

text \<open>A bill within the two bounds, each of them optional and inclusive.\<close>

definition in_range :: "date option \<Rightarrow> date option \<Rightarrow> bill_row \<Rightarrow> bool" where
  "in_range lo hi b =
     ((case lo of None \<Rightarrow> True | Some d \<Rightarrow> d \<le> date_of (b_created_at b)) \<and>
      (case hi of None \<Rightarrow> True | Some d \<Rightarrow> date_of (b_created_at b) \<le> d))"

text \<open>
  The summary computed over a given list of bills, for a store that produces its groups in
  the order \<open>rank\<close>.
\<close>

definition summary_over ::
  "(string option \<times> string option \<Rightarrow> nat) \<Rightarrow> bill_row list \<Rightarrow> bill_item_row list \<Rightarrow> summary" where
  "summary_over rank B I =
     \<lparr>s_total_bills = Num (of_nat (length B)),
      s_total_sales = sql_sum (map b_total_amount B),
      s_total_savings = sql_sum (map b_total_savings B),
      s_total_mrp = sql_sum (map b_total_mrp B),
      s_total_items_sold =
        (if truthy (items_sold (join_items B I)) then items_sold (join_items B I) else Num 0),
      s_top_products = top_products_of rank (join_items B I)\<rparr>"

text \<open>
  The filter the two dates of a request stand for: an error when a given date cannot be
  read, else the test of the two bounds.
\<close>

definition date_filter :: "store \<Rightarrow> summary_request \<Rightarrow> string + (bill_row \<Rightarrow> bool)" where
  "date_filter s req =
     (if (given (start req) \<and> bound s (start req) = None) \<or>
         (given (end_date req) \<and> bound s (end_date req) = None)
      then Inl ''invalid input syntax for type date''
      else Inr (in_range (bound s (start req)) (bound s (end_date req))))"

text \<open>The groups of the ranking, in the order of the ranking.\<close>

definition top_keys ::
  "(string option \<times> string option \<Rightarrow> nat) \<Rightarrow> (bill_row \<times> bill_item_row) list \<Rightarrow>
     (string option \<times> string option) list" where
  "top_keys rank js =
     take 10 (sort_key (\<lambda>k. desc_key (total_revenue (group_row k js)))
                (sort_key rank (remdups (map group_key js))))"

text \<open>
  The descending order of the store, written out: \<^verbatim>\<open>NULL\<close> may stand before anything,
  a number before a number that is not greater, and nothing but \<^verbatim>\<open>NULL\<close> before \<^verbatim>\<open>NULL\<close>.
\<close>

definition ranks_before :: "sqlval \<Rightarrow> sqlval \<Rightarrow> bool" where
  "ranks_before a b =
     (case a of
        Null \<Rightarrow> True
      | Num x \<Rightarrow> (case b of Null \<Rightarrow> False | Num y \<Rightarrow> y \<le> x))"

text \<open>A joined row whose item has a price, an mrp and a quantity.\<close>

definition priced :: "bill_row \<times> bill_item_row \<Rightarrow> bool" where
  "priced j =
     (bi_price (snd j) \<noteq> None \<and> bi_mrp (snd j) \<noteq> None \<and> bi_quantity (snd j) \<noteq> None)"

text \<open>The statements a summary request sends, in order.\<close>

definition sent :: "summary_request \<Rightarrow> store \<Rightarrow> cmd list" where
  "sent req s = map fst (drop (length (trace s)) (trace (snd (getSalesSummary req s))))"

text \<open>A store and a request to run the handlers on.\<close>

definition example_store :: store where
  "example_store =
     \<lparr>bills = [], bill_items = [], tx_open = False, tx_bills = [], tx_items = [],
      bill_seq = 1, item_seq = 1, now = 1700000000,
      cast_date = (\<lambda>t. if t = ''2023-11-14'' then Some 19675 else None),
      group_rank = (\<lambda>k. 0), checked_out = 0, releases = 0, faults = (\<lambda>k. None), ncalls = 0, trace = [],
      views = []\<rparr>"

definition example_items :: "item list" where
  "example_items =
     [\<lparr>product_id = Some ''p1'', name = Some ''A'', price = Some 10, mrp = Some 12,
       quantity = Some 2\<rparr>,
      \<lparr>product_id = Some ''p2'', name = Some ''B'', price = Some 5, mrp = Some 6,
       quantity = Some 1\<rparr>]"

definition example_request :: bill_request where
  "example_request =
     \<lparr>items = Array example_items, total_amount = Some 25, total_mrp = Some 30,
      total_savings = Some 5, created_by = Some ''u1''\<rparr>"

text \<open>The same store when the call numbered \<open>n\<close> fails.\<close>

definition failing_store :: "nat \<Rightarrow> store" where
  "failing_store n = example_store\<lparr>faults := (\<lambda>k. if k = n then Some ''boom'' else None)\<rparr>"

text \<open>Requests for the summary, and stores with bills on several days and with three products.\<close>

definition no_filter :: summary_request where
  "no_filter = \<lparr>start = None, end_date = None, groupBy = None\<rparr>"

definition one_day :: summary_request where
  "one_day = \<lparr>start = Some ''2023-11-14'', end_date = Some ''2023-11-14'', groupBy = None\<rparr>"

definition bill_at :: "nat \<Rightarrow> timestamp \<Rightarrow> bill_row" where
  "bill_at k t =
     \<lparr>b_id = k, b_total_amount = Some 10, b_total_mrp = Some 12, b_total_savings = Some 2,
      b_created_by = Some ''u1'', b_created_at = t\<rparr>"

definition item_for :: "nat \<Rightarrow> nat \<Rightarrow> string \<Rightarrow> rat \<Rightarrow> bill_item_row" where
  "item_for k billId p x =
     \<lparr>bi_id = k, bi_bill_id = billId, bi_product_id = Some p, bi_name = Some p,
      bi_price = Some x, bi_mrp = Some (x + 2), bi_quantity = Some 1\<rparr>"

definition dated_store :: store where
  "dated_store =
     example_store
       \<lparr>bills := [bill_at 1 1699919999, bill_at 2 1699920000, bill_at 3 1700006399,
                  bill_at 4 1700006400],
        bill_items := [item_for 1 1 ''P1'' 10, item_for 2 2 ''P1'' 10, item_for 3 3 ''P2'' 8,
                       item_for 4 4 ''P2'' 10]\<rparr>"

definition ranking_store :: store where
  "ranking_store =
     example_store
       \<lparr>bills := [bill_at 1 1699920000],
        bill_items := [item_for 1 1 ''P1'' 100, item_for 2 1 ''P2'' 250,
                       item_for 3 1 ''P3'' 50]\<rparr>"

text \<open>
  An item sent without a price, a request for a bill of two priced items and that one, the
  store once the request has been handled, and a store that produces its groups in another
  order than the ranking store.
\<close>

definition unpriced_item :: item where
  "unpriced_item =
     \<lparr>product_id = Some ''P0'', name = Some ''P0'', price = None, mrp = Some 7,
      quantity = Some 1\<rparr>"

definition unpriced_request :: bill_request where
  "unpriced_request =
     \<lparr>items = Array [\<lparr>product_id = Some ''P1'', name = Some ''P1'', price = Some 100,
                       mrp = Some 102, quantity = Some 1\<rparr>,
                      \<lparr>product_id = Some ''P2'', name = Some ''P2'', price = Some 250,
                       mrp = Some 252, quantity = Some 1\<rparr>,
                      unpriced_item],
      total_amount = Some 350, total_mrp = Some 361, total_savings = Some 11,
      created_by = Some ''u1''\<rparr>"

definition unpriced_store :: store where
  "unpriced_store = snd (createBill unpriced_request example_store)"

definition tied_store :: store where
  "tied_store =
     example_store
       \<lparr>bills := [bill_at 1 1699920000],
        bill_items := [item_for 1 1 ''T1'' 10, item_for 2 1 ''T2'' 10],
        group_rank := (\<lambda>k. if k = (Some ''T2'', Some ''T2'') then 0 else 1)\<rparr>"

section \<open>Calls to the store\<close>

lemma observe_fields [simp]:
  "bills (observe c e s) = bills s"
  "bill_items (observe c e s) = bill_items s"
  "tx_open (observe c e s) = tx_open s"
  "tx_bills (observe c e s) = tx_bills s"
  "tx_items (observe c e s) = tx_items s"
  "bill_seq (observe c e s) = bill_seq s"
  "item_seq (observe c e s) = item_seq s"
  "now (observe c e s) = now s"
  "cast_date (observe c e s) = cast_date s"
  "group_rank (observe c e s) = group_rank s"
  "checked_out (observe c e s) = checked_out s"
  "releases (observe c e s) = releases s"
  "faults (observe c e s) = faults s"
  "ncalls (observe c e s) = ncalls s + 1"
  "trace (observe c e s) = trace s @ [(c, e)]"
  "views (observe c e s) = views s @ [visible s]"
  "visible (observe c e s) = visible s"
  by (simp_all add: observe_def visible_def)

lemma call_fault: "faults s (ncalls s) = Some m \<Longrightarrow> call c s = (Inl m, observe c (Some m) s)"
  by (simp add: call_def)

lemma call_Connect:
  "faults s (ncalls s) = None \<Longrightarrow>
   call Connect s = (Inr NoRows, observe Connect None (s\<lparr>checked_out := checked_out s + 1\<rparr>))"
  by (simp add: call_def)

lemma call_Begin:
  "faults s (ncalls s) = None \<Longrightarrow>
   call Begin s = (Inr NoRows, observe Begin None (s\<lparr>tx_open := True\<rparr>))"
  by (simp add: call_def)

lemma call_InsertBill:
  "faults s (ncalls s) = None \<Longrightarrow> tx_open s \<Longrightarrow>
   call (InsertBill a m sv u) s =
     (Inr (BillRows [new_bill s a m sv u]), observe (InsertBill a m sv u) None
        (s\<lparr>tx_bills := tx_bills s @ [new_bill s a m sv u], bill_seq := bill_seq s + 1\<rparr>))"
  by (simp add: call_def Let_def)

lemma call_InsertItem:
  "faults s (ncalls s) = None \<Longrightarrow> tx_open s \<Longrightarrow>
   call (InsertItem b it) s =
     (Inr NoRows, observe (InsertItem b it) None
        (s\<lparr>tx_items := tx_items s @ [new_item (item_seq s) b it], item_seq := item_seq s + 1\<rparr>))"
  by (simp add: call_def Let_def)

lemma call_Commit:
  "faults s (ncalls s) = None \<Longrightarrow> tx_open s \<Longrightarrow>
   call Commit s =
     (Inr NoRows, observe Commit None
        (s\<lparr>bills := bills s @ tx_bills s, bill_items := bill_items s @ tx_items s,
           tx_open := False, tx_bills := [], tx_items := []\<rparr>))"
  by (simp add: call_def)

lemma call_SelectBill:
  "faults s (ncalls s) = None \<Longrightarrow>
   call (SelectBill b) s =
     (Inr (CompleteRows (map (complete s) (filter (\<lambda>x. b_id x = b) (bills s)))),
      observe (SelectBill b) None s)"
  by (simp add: call_def)

lemma call_Rollback:
  "faults s (ncalls s) = None \<Longrightarrow>
   call Rollback s =
     (Inr NoRows, observe Rollback None (s\<lparr>tx_open := False, tx_bills := [], tx_items := []\<rparr>))"
  by (simp add: call_def)

lemma client_release_fields [simp]:
  "releases (client_release s) = releases s + 1"
  "checked_out (client_release s) = checked_out s - 1"
  "trace (client_release s) = trace s @ [(Release, None)]"
  "bills (client_release s) = bills s"
  "bill_items (client_release s) = bill_items s"
  "tx_open (client_release s) = tx_open s"
  "tx_bills (client_release s) = tx_bills s"
  "tx_items (client_release s) = tx_items s"
  "views (client_release s) = views s"
  "ncalls (client_release s) = ncalls s"
  "faults (client_release s) = faults s"
  "visible (client_release s) = visible s"
  by (simp_all add: client_release_def visible_def)

section \<open>The inserts and the commit\<close>

lemma no_fault_iff: "no_fault s a b \<longleftrightarrow> (\<forall>j. a \<le> j \<and> j < b \<longrightarrow> faults s j = None)"
  by (auto simp: no_fault_def list_all_iff)

lemma no_fault_Suc: "faults s a = None \<Longrightarrow> no_fault s (Suc a) b \<Longrightarrow> no_fault s a b"
  unfolding no_fault_iff by (metis Suc_leI le_neq_implies_less)

lemma no_fault_empty [simp]: "no_fault s a a"
  by (simp add: no_fault_def)

lemma no_fault_snoc: "no_fault s a b \<Longrightarrow> faults s b = None \<Longrightarrow> no_fault s a (Suc b)"
  unfolding no_fault_iff by (metis less_Suc_eq)

lemma no_fault_trans: "no_fault s a b \<Longrightarrow> no_fault s b c \<Longrightarrow> no_fault s a c"
  unfolding no_fault_iff by (metis leI)

lemma no_fault_faults: "faults s' = faults s \<Longrightarrow> no_fault s' a b = no_fault s a b"
  by (simp add: no_fault_def)

lemma status_created [simp]: "status (created r) = 201"
  by (simp add: created_def)

lemma insert_items_facts:
  assumes "insert_items b its s = (r, s')" "tx_open s"
  shows "faults s' = faults s \<and> tx_open s' \<and> bills s' = bills s \<and> bill_items s' = bill_items s \<and>
         tx_bills s' = tx_bills s \<and> bill_seq s' = bill_seq s \<and> now s' = now s \<and>
         ncalls s \<le> ncalls s' \<and>
         views s' = views s @ replicate (ncalls s' - ncalls s) (visible s) \<and>
         (\<exists>evs. trace s' = trace s @ evs \<and>
                map fst evs = take (ncalls s' - ncalls s) (map (InsertItem b) its)) \<and>
         (case r of
            Inr u \<Rightarrow> ncalls s' = ncalls s + length its \<and>
                     tx_items s' = tx_items s @ item_rows (item_seq s) b its \<and>
                     no_fault s (ncalls s) (ncalls s')
          | Inl m \<Rightarrow> ncalls s < ncalls s' \<and> ncalls s' \<le> ncalls s + length its \<and>
                     faults s (ncalls s' - 1) = Some m \<and>
                     no_fault s (ncalls s) (ncalls s' - 1))"
  using assms
proof (induction its arbitrary: s)
  case Nil
  then show ?case by (auto simp: no_fault_iff)
next
  case (Cons it its)
  show ?case
  proof (cases "faults s (ncalls s)")
    case (Some m)
    with Cons.prems show ?thesis
      by (auto simp: call_fault no_fault_iff)
  next
    case None
    define s1 where "s1 = observe (InsertItem b it) None
        (s\<lparr>tx_items := tx_items s @ [new_item (item_seq s) b it], item_seq := item_seq s + 1\<rparr>)"
    have run1: "insert_items b its s1 = (r, s')"
      using Cons.prems None by (simp add: call_InsertItem s1_def)
    have open1: "tx_open s1" using Cons.prems by (simp add: s1_def)
    note IH = Cons.IH[OF run1 open1]
    have f1: "faults s1 = faults s" "ncalls s1 = ncalls s + 1" "visible s1 = visible s"
      "views s1 = views s @ [visible s]" "trace s1 = trace s @ [(InsertItem b it, None)]"
      "tx_items s1 = tx_items s @ [new_item (item_seq s) b it]" "item_seq s1 = Suc (item_seq s)"
      "bills s1 = bills s" "bill_items s1 = bill_items s" "tx_bills s1 = tx_bills s"
      "bill_seq s1 = bill_seq s" "now s1 = now s"
      by (simp_all add: s1_def visible_def)
    from IH obtain evs where evs: "trace s' = trace s1 @ evs"
      "map fst evs = take (ncalls s' - ncalls s1) (map (InsertItem b) its)"
      by blast
    have le: "ncalls s1 \<le> ncalls s'" using IH by simp
    have d: "ncalls s' - ncalls s = Suc (ncalls s' - ncalls s1)"
      using le f1 by simp
    have tr: "\<exists>evs. trace s' = trace s @ evs \<and>
                map fst evs = take (ncalls s' - ncalls s) (map (InsertItem b) (it # its))"
      using evs f1 d by simp
    have vw: "views s' = views s @ replicate (ncalls s' - ncalls s) (visible s)"
      using IH f1 d by (simp add: replicate_app_Cons_same)
    have nf: "\<And>a. no_fault s1 (ncalls s1) a \<Longrightarrow> no_fault s (ncalls s) a"
      using None f1 no_fault_Suc[of s "ncalls s"] by (simp add: no_fault_faults[OF f1(1)])
    have res: "(case r of
            Inr u \<Rightarrow> ncalls s' = ncalls s + length (it # its) \<and>
                     tx_items s' = tx_items s @ item_rows (item_seq s) b (it # its) \<and>
                     no_fault s (ncalls s) (ncalls s')
          | Inl m \<Rightarrow> ncalls s < ncalls s' \<and> ncalls s' \<le> ncalls s + length (it # its) \<and>
                     faults s (ncalls s' - 1) = Some m \<and>
                     no_fault s (ncalls s) (ncalls s' - 1))"
    proof (cases r)
      case (Inl m)
      with IH f1 nf show ?thesis by auto
    next
      case (Inr u)
      with IH f1 nf show ?thesis by auto
    qed
    from IH f1 le tr vw res show ?thesis by simp
  qed
qed


lemma try_block_facts:
  assumes run: "try_block req s = (r, s')"
    and valid: "items req = Array its" "its \<noteq> []"
    and clean: "tx_bills s = []" "tx_items s = []"
  shows "faults s' = faults s \<and> ncalls s < ncalls s' \<and>
     (\<exists>evs. trace s' = trace s @ evs \<and>
            map fst evs = take (ncalls s' - ncalls s) (script req (bill_seq s) its)) \<and>
     ((\<exists>m. r = Inl m \<and> faults s (ncalls s' - 1) = Some m \<and>
           no_fault s (ncalls s) (ncalls s' - 1) \<and> ncalls s' \<le> ncalls s + length its + 3 \<and>
           bills s' = bills s \<and> bill_items s' = bill_items s \<and>
           views s' = views s @ replicate (ncalls s' - ncalls s) (visible s))
      \<or> (no_fault s (ncalls s) (ncalls s + length its + 3) \<and>
         ncalls s' = ncalls s + length its + 4 \<and>
         bills s' = bills s @ [persisted_bill req s] \<and>
         bill_items s' = bill_items s @ item_rows (item_seq s) (bill_seq s) its \<and>
         \<not> tx_open s' \<and> tx_bills s' = [] \<and> tx_items s' = [] \<and>
         views s' = views s @ replicate (length its + 2) (visible s) @ [visible s', visible s'] \<and>
         (case faults s (ncalls s + length its + 3) of
            Some m \<Rightarrow> r = Inl m
          | None \<Rightarrow> (\<exists>res. r = Inr res \<and> status res = 201))))"
proof (cases "faults s (ncalls s)")
  case (Some m)
  with run show ?thesis
    by (auto simp: try_block_def call_fault script_def)
next
  case None
  define s1 where "s1 = observe Begin None (s\<lparr>tx_open := True\<rparr>)"
  have f1: "faults s1 = faults s" "ncalls s1 = ncalls s + 1" "tx_open s1"
    "bills s1 = bills s" "bill_items s1 = bill_items s" "tx_bills s1 = []" "tx_items s1 = []"
    "bill_seq s1 = bill_seq s" "item_seq s1 = item_seq s" "now s1 = now s"
    "views s1 = views s @ [visible s]" "trace s1 = trace s @ [(Begin, None)]"
    "visible s1 = visible s"
    using clean by (simp_all add: s1_def visible_def)
  let ?ib = "InsertBill (total_amount req) (total_mrp req) (total_savings req) (created_by req)"
  let ?sc = "script req (bill_seq s) its"
  have run1: "(case insert_all req its s1 of
                 (Inl e, s2) \<Rightarrow> (Inl e, s2)
               | (Inr billId, s2) \<Rightarrow> commit_and_read billId s2) = (r, s')"
    using run None valid by (simp add: try_block_def call_Begin s1_def)
  have nf1: "no_fault s (ncalls s) (Suc (ncalls s))"
    using None no_fault_snoc[of s "ncalls s" "ncalls s"] by simp
  show ?thesis
  proof (cases "faults s (ncalls s + 1)")
    case (Some m)
    then have "faults s1 (ncalls s1) = Some m" using f1 by simp
    then have "insert_all req its s1 = (Inl m, observe ?ib (Some m) s1)"
      by (simp add: insert_all_def call_fault)
    with run1 have "r = Inl m" "s' = observe ?ib (Some m) s1" by simp_all
    then show ?thesis
      using Some f1 nf1 by (simp add: script_def numeral_2_eq_2)
  next
    case n2: None
    define b where "b = persisted_bill req s"
    define s2 where "s2 = observe ?ib None
        (s1\<lparr>tx_bills := tx_bills s1 @ [b], bill_seq := bill_seq s1 + 1\<rparr>)"
    have nb: "new_bill s1 (total_amount req) (total_mrp req) (total_savings req) (created_by req) = b"
      using f1 by (simp add: b_def persisted_bill_def new_bill_def)
    have bid: "b_id b = bill_seq s" by (simp add: b_def persisted_bill_def new_bill_def)
    have c2: "call ?ib s1 = (Inr (BillRows [b]), s2)"
      using n2 f1 nb by (simp add: call_InsertBill s2_def)
    have f2: "faults s2 = faults s" "ncalls s2 = Suc (Suc (ncalls s))" "tx_open s2"
      "bills s2 = bills s" "bill_items s2 = bill_items s" "tx_bills s2 = [b]" "tx_items s2 = []"
      "item_seq s2 = item_seq s" "now s2 = now s"
      "views s2 = views s @ [visible s, visible s]"
      "trace s2 = trace s @ [(Begin, None), (?ib, None)]"
      "visible s2 = visible s"
      using f1 by (simp_all add: s2_def visible_def)
    have nf2: "no_fault s (ncalls s) (ncalls s2)"
      using nf1 n2 f2 no_fault_snoc[of s "ncalls s" "Suc (ncalls s)"] by simp
    obtain r3 s3 where l3: "insert_items (bill_seq s) its s2 = (r3, s3)"
      by (cases "insert_items (bill_seq s) its s2")
    note L = insert_items_facts[OF l3 f2(3)]
    from L obtain evs where evs: "trace s3 = trace s2 @ evs"
      "map fst evs = take (ncalls s3 - ncalls s2) (map (InsertItem (bill_seq s)) its)"
      by blast
    have le3: "ncalls s2 \<le> ncalls s3" using L by simp
    have bd3: "ncalls s3 \<le> ncalls s2 + length its"
      using L by (cases r3) simp_all
    have d3: "ncalls s3 - ncalls s = Suc (Suc (ncalls s3 - ncalls s2))"
      using le3 f2 by simp
    have k3: "ncalls s3 - ncalls s2 \<le> length its"
      using bd3 by simp
    have sc3: "take (Suc (Suc (ncalls s3 - ncalls s2))) ?sc
        = Begin # ?ib # take (ncalls s3 - ncalls s2) (map (InsertItem (bill_seq s)) its)"
      using k3 by (simp add: script_def)
    have tr3: "trace s3 = trace s @ ((Begin, None) # (?ib, None) # evs)"
      using evs f2 by simp
    have m3: "map fst ((Begin, None) # (?ib, None) # evs) = take (ncalls s3 - ncalls s) ?sc"
      using evs(2) d3 sc3 by simp
    have vw3: "views s3 = views s @ replicate (ncalls s3 - ncalls s) (visible s)"
      using L f2 d3 by (simp add: replicate_app_Cons_same)
    have q3: "faults s3 = faults s" "bills s3 = bills s" "bill_items s3 = bill_items s"
      "tx_open s3" "tx_bills s3 = [b]" "visible s3 = visible s"
      using L f2 by (simp_all add: visible_def)
    show ?thesis
    proof (cases r3)
      case (Inl m)
      then have ia: "insert_all req its s1 = (Inl m, s3)"
        using c2 l3 bid by (simp add: insert_all_def)
      with run1 have rs: "r = Inl m" "s' = s3" by simp_all
      from L Inl have Lf: "ncalls s2 < ncalls s3" "faults s2 (ncalls s3 - 1) = Some m"
        "no_fault s2 (ncalls s2) (ncalls s3 - 1)"
        by auto
      have nf: "no_fault s (ncalls s) (ncalls s3 - 1)"
        using no_fault_trans[OF nf2] Lf(3) by (simp add: no_fault_faults[OF f2(1)])
      have c1: "faults s3 = faults s \<and> ncalls s < ncalls s3"
        using q3 Lf f2 by simp
      have c2': "\<exists>evs. trace s3 = trace s @ evs \<and> map fst evs = take (ncalls s3 - ncalls s) ?sc"
        using tr3 m3 by blast
      have c3: "faults s (ncalls s3 - 1) = Some m \<and> ncalls s3 \<le> ncalls s + length its + 3"
        using Lf f2 bd3 by simp
      from c1 c2' c3 nf q3 vw3 show ?thesis
        unfolding rs by blast
    next
      case (Inr u)
      then have ia: "insert_all req its s1 = (Inr (bill_seq s), s3)"
        using c2 l3 bid by (simp add: insert_all_def)
      with run1 have run3: "commit_and_read (bill_seq s) s3 = (r, s')" by simp
      from L Inr have Ls: "ncalls s3 = ncalls s2 + length its"
        "tx_items s3 = tx_items s2 @ item_rows (item_seq s2) (bill_seq s) its"
        "no_fault s2 (ncalls s2) (ncalls s3)"
        by auto
      have n3: "ncalls s3 = Suc (Suc (ncalls s + length its))"
        using Ls f2 by simp
      have ti3: "tx_items s3 = item_rows (item_seq s) (bill_seq s) its"
        using Ls f2 by simp
      have nf3: "no_fault s (ncalls s) (Suc (Suc (ncalls s + length its)))"
        using no_fault_trans[OF nf2] Ls(3) n3 by (simp add: no_fault_faults[OF f2(1)])
      have me: "map fst evs = map (InsertItem (bill_seq s)) its"
        using evs(2) Ls by simp
      have vw3': "views s3 = views s @ replicate (Suc (Suc (length its))) (visible s)"
        using vw3 n3 by simp
      show ?thesis
      proof (cases "faults s (Suc (Suc (ncalls s + length its)))")
        case (Some m)
        then have "faults s3 (ncalls s3) = Some m" using q3 n3 by simp
        then have "commit_and_read (bill_seq s) s3 = (Inl m, observe Commit (Some m) s3)"
          by (simp add: commit_and_read_def call_fault)
        with run3 have rs: "r = Inl m" "s' = observe Commit (Some m) s3" by simp_all
        have n': "ncalls s' = Suc (Suc (Suc (ncalls s + length its)))"
          using rs n3 by simp
        have d': "ncalls s' - ncalls s = Suc (Suc (Suc (length its)))"
          using n' by simp
        have tk: "take (Suc (Suc (Suc (length its)))) ?sc
           = Begin # ?ib # map (InsertItem (bill_seq s)) its @ [Commit]"
          by (simp add: script_def)
        have c1: "faults s' = faults s \<and> ncalls s < ncalls s'"
          using rs q3 n' by simp
        have c2': "\<exists>evs. trace s' = trace s @ evs \<and> map fst evs = take (ncalls s' - ncalls s) ?sc"
        proof (intro exI conjI)
          show "trace s' = trace s @ ((Begin, None) # (?ib, None) # evs @ [(Commit, Some m)])"
            using rs tr3 by simp
          show "map fst ((Begin, None) # (?ib, None) # evs @ [(Commit, Some m)])
              = take (ncalls s' - ncalls s) ?sc"
            unfolding d' tk using me by simp
        qed
        have c3: "faults s (ncalls s' - 1) = Some m \<and> no_fault s (ncalls s) (ncalls s' - 1)
            \<and> ncalls s' \<le> ncalls s + length its + 3"
          using Some nf3 n' by simp
        have c4: "bills s' = bills s \<and> bill_items s' = bill_items s"
          using rs q3 by simp
        have c5: "views s' = views s @ replicate (ncalls s' - ncalls s) (visible s)"
          unfolding d' using rs vw3' q3 by (simp add: replicate_append_same)
        from c1 c2' c3 c4 c5 rs(1) show ?thesis
          by blast
      next
        case n4: None
        define s4 where "s4 = observe Commit None
          (s3\<lparr>bills := bills s3 @ tx_bills s3, bill_items := bill_items s3 @ tx_items s3,
             tx_open := False, tx_bills := [], tx_items := []\<rparr>)"
        have c4: "call Commit s3 = (Inr NoRows, s4)"
          using n4 q3 n3 by (simp add: call_Commit s4_def)
        have f4: "faults s4 = faults s" "ncalls s4 = Suc (Suc (Suc (ncalls s + length its)))"
          "\<not> tx_open s4" "bills s4 = bills s @ [b]"
          "bill_items s4 = bill_items s @ item_rows (item_seq s) (bill_seq s) its"
          "tx_bills s4 = []" "tx_items s4 = []"
          "views s4 = views s3 @ [visible s4]" "trace s4 = trace s3 @ [(Commit, None)]"
          using q3 n3 ti3 by (simp_all add: s4_def visible_def)
        have nf4: "no_fault s (ncalls s) (Suc (Suc (Suc (ncalls s + length its))))"
          using nf3 n4 no_fault_snoc[of s "ncalls s" "Suc (Suc (ncalls s + length its))"] by simp
        have com: "\<exists>e res. call (SelectBill (bill_seq s)) s4 = (res, observe (SelectBill (bill_seq s)) e s4)
            \<and> (case faults s (Suc (Suc (Suc (ncalls s + length its)))) of
                  Some m \<Rightarrow> res = Inl m | None \<Rightarrow> (\<exists>x. res = Inr x))"
          using f4 by (cases "faults s (Suc (Suc (Suc (ncalls s + length its))))")
            (auto simp: call_fault call_SelectBill)
        then obtain e res where c5: "call (SelectBill (bill_seq s)) s4 = (res, observe (SelectBill (bill_seq s)) e s4)"
          and res: "(case faults s (Suc (Suc (Suc (ncalls s + length its)))) of
                  Some m \<Rightarrow> res = Inl m | None \<Rightarrow> (\<exists>x. res = Inr x))"
          by blast
        have s': "s' = observe (SelectBill (bill_seq s)) e s4"
          using run3 c4 c5 by (cases res) (simp_all add: commit_and_read_def)
        have r: "(case faults s (Suc (Suc (Suc (ncalls s + length its)))) of
            Some m \<Rightarrow> r = Inl m
          | None \<Rightarrow> (\<exists>res. r = Inr res \<and> status res = 201))"
          using run3 c4 c5 res
          by (cases "faults s (Suc (Suc (Suc (ncalls s + length its))))") (auto simp: commit_and_read_def)
        have vs: "visible s' = visible s4" using s' by simp
        have n': "ncalls s' = Suc (Suc (Suc (Suc (ncalls s + length its))))"
          using s' f4 by simp
        have d': "ncalls s' - ncalls s = Suc (Suc (Suc (Suc (length its))))"
          using n' by simp
        have tk: "take (Suc (Suc (Suc (Suc (length its))))) ?sc
           = Begin # ?ib # map (InsertItem (bill_seq s)) its @ [Commit, SelectBill (bill_seq s)]"
          by (simp add: script_def)
        have c1: "faults s' = faults s \<and> ncalls s < ncalls s'"
          using s' f4 n' by simp
        have c2': "\<exists>evs. trace s' = trace s @ evs \<and> map fst evs = take (ncalls s' - ncalls s) ?sc"
        proof (intro exI conjI)
          show "trace s' = trace s @ ((Begin, None) # (?ib, None) # evs @
                  [(Commit, None), (SelectBill (bill_seq s), e)])"
            using s' f4 tr3 by simp
          show "map fst ((Begin, None) # (?ib, None) # evs @
                  [(Commit, None), (SelectBill (bill_seq s), e)])
              = take (ncalls s' - ncalls s) ?sc"
            unfolding d' tk using me by simp
        qed
        have c3: "no_fault s (ncalls s) (ncalls s + length its + 3) \<and>
            ncalls s' = ncalls s + length its + 4"
          using nf4 n' by (simp add: eval_nat_numeral)
        have c4': "bills s' = bills s @ [persisted_bill req s] \<and>
            bill_items s' = bill_items s @ item_rows (item_seq s) (bill_seq s) its \<and>
            \<not> tx_open s' \<and> tx_bills s' = [] \<and> tx_items s' = []"
          using s' f4 by (simp add: b_def)
        have c5': "views s' = views s @ replicate (length its + 2) (visible s) @ [visible s', visible s']"
          using s' f4 vw3' vs by simp
        have c6: "(case faults s (ncalls s + length its + 3) of
            Some m \<Rightarrow> r = Inl m
          | None \<Rightarrow> (\<exists>res. r = Inr res \<and> status res = 201))"
          using r by (simp add: eval_nat_numeral)
        from c1 c2' c3 c4' c5' c6 show ?thesis
          by blast
      qed
    qed
  qed
qed


section \<open>The handler as a whole\<close>

lemma connected_fields [simp]:
  "bills (connected s) = bills s"
  "bill_items (connected s) = bill_items s"
  "tx_open (connected s) = tx_open s"
  "tx_bills (connected s) = tx_bills s"
  "tx_items (connected s) = tx_items s"
  "bill_seq (connected s) = bill_seq s"
  "item_seq (connected s) = item_seq s"
  "now (connected s) = now s"
  "faults (connected s) = faults s"
  "ncalls (connected s) = Suc (ncalls s)"
  "trace (connected s) = trace s @ [(Connect, None)]"
  "views (connected s) = views s @ [visible s]"
  "visible (connected s) = visible s"
  "persisted_bill req (connected s) = persisted_bill req s"
  by (simp_all add: connected_def visible_def persisted_bill_def new_bill_def)

lemma createBill_connected:
  "faults s (ncalls s) = None \<Longrightarrow>
   createBill req s =
     (case try_block req (connected s) of
        (Inr res, s2) \<Rightarrow> (Some res, client_release s2)
      | (Inl err, s2) \<Rightarrow>
          (case catch_block err s2 of (res, s3) \<Rightarrow> (res, client_release s3)))"
  by (simp add: createBill_def call_Connect connected_def)

lemma catch_block_facts:
  assumes "catch_block err s = (res, s')"
  shows "faults s' = faults s \<and> ncalls s' = Suc (ncalls s) \<and> bills s' = bills s \<and>
         bill_items s' = bill_items s \<and> views s' = views s @ [visible s] \<and>
         (\<exists>e. trace s' = trace s @ [(Rollback, e)]) \<and>
         (case faults s (ncalls s) of
            None \<Rightarrow> res = Some (server_error err) \<and> \<not> tx_open s' \<and> tx_bills s' = [] \<and>
                    tx_items s' = []
          | Some e \<Rightarrow> res = None)"
  using assms
  by (cases "faults s (ncalls s)") (auto simp: catch_block_def call_fault call_Rollback visible_def)

lemma first_fault_unique:
  assumes "no_fault s a b" "faults s b = Some m" "no_fault s a b'" "faults s b' = Some m'"
    "a \<le> b" "a \<le> b'"
  shows "b = b' \<and> m = m'"
proof -
  have "\<not> b < b'" using assms unfolding no_fault_iff by fastforce
  moreover have "\<not> b' < b" using assms unfolding no_fault_iff by fastforce
  ultimately have "b = b'" by simp
  with assms show ?thesis by simp
qed

lemma createBill_facts:
  assumes conn: "faults s (ncalls s) = None"
    and valid: "items req = Array its" "its \<noteq> []"
    and clean: "tx_bills s = []" "tx_items s = []"
    and run: "createBill req s = (res, s')"
  shows
   "(\<exists>k m. k \<le> length its + 2 \<and> no_fault s (ncalls s) (ncalls s + k + 1) \<and>
        faults s (ncalls s + k + 1) = Some m \<and>
        bills s' = bills s \<and> bill_items s' = bill_items s \<and>
        views s' = views s @ replicate (k + 3) (visible s) \<and>
        map fst (drop (length (trace s)) (trace s'))
          = Connect # take (k + 1) (script req (bill_seq s) its) @ [Rollback, Release] \<and>
        (case faults s (ncalls s + k + 2) of
           None \<Rightarrow> res = Some (server_error m) \<and> \<not> tx_open s' \<and> tx_bills s' = [] \<and>
                   tx_items s' = []
         | Some e \<Rightarrow> res = None))
    \<or> (no_fault s (ncalls s) (ncalls s + length its + 4) \<and>
        bills s' = bills s @ [persisted_bill req s] \<and>
        bill_items s' = bill_items s @ item_rows (item_seq s) (bill_seq s) its \<and>
        \<not> tx_open s' \<and> tx_bills s' = [] \<and> tx_items s' = [] \<and>
        (case faults s (ncalls s + length its + 4) of
           None \<Rightarrow> (\<exists>r. res = Some r \<and> status r = 201) \<and>
                   views s' = views s @ replicate (length its + 3) (visible s) @
                                replicate 2 (visible s') \<and>
                   map fst (drop (length (trace s)) (trace s'))
                     = Connect # script req (bill_seq s) its @ [Release]
         | Some m \<Rightarrow> views s' = views s @ replicate (length its + 3) (visible s) @
                                replicate 3 (visible s') \<and>
                   map fst (drop (length (trace s)) (trace s'))
                     = Connect # script req (bill_seq s) its @ [Rollback, Release] \<and>
                   res = (case faults s (ncalls s + length its + 5) of
                            None \<Rightarrow> Some (server_error m) | Some e \<Rightarrow> None)))"
proof -
  let ?s1 = "connected s"
  let ?sc = "script req (bill_seq s) its"
  obtain r s2 where t: "try_block req ?s1 = (r, s2)"
    by (cases "try_block req ?s1")
  have clean1: "tx_bills ?s1 = []" "tx_items ?s1 = []" using clean by simp_all
  note T = try_block_facts[OF t valid clean1]
  from T obtain evs where evs: "trace s2 = trace ?s1 @ evs"
    "map fst evs = take (ncalls s2 - ncalls ?s1) ?sc"
    by auto
  have fl2: "faults s2 = faults s" and lt2: "Suc (ncalls s) < ncalls s2"
    using T by simp_all
  have nfc: "no_fault s (ncalls s) (Suc (ncalls s))"
    using conn no_fault_snoc[of s "ncalls s" "ncalls s"] by simp
  from T consider
    (fail) m where "r = Inl m" "faults s (ncalls s2 - 1) = Some m"
      "no_fault s (Suc (ncalls s)) (ncalls s2 - 1)" "ncalls s2 \<le> Suc (ncalls s) + length its + 3"
      "bills s2 = bills s" "bill_items s2 = bill_items s"
      "views s2 = views ?s1 @ replicate (ncalls s2 - ncalls ?s1) (visible s)"
    | (committed) "no_fault s (Suc (ncalls s)) (Suc (ncalls s) + length its + 3)"
      "ncalls s2 = Suc (ncalls s) + length its + 4"
      "bills s2 = bills s @ [persisted_bill req s]"
      "bill_items s2 = bill_items s @ item_rows (item_seq s) (bill_seq s) its"
      "\<not> tx_open s2" "tx_bills s2 = []" "tx_items s2 = []"
      "views s2 = views ?s1 @ replicate (length its + 2) (visible s) @ [visible s2, visible s2]"
      "(case faults s (Suc (ncalls s) + length its + 3) of
            Some m \<Rightarrow> r = Inl m
          | None \<Rightarrow> (\<exists>res. r = Inr res \<and> status res = 201))"
    by (auto simp: no_fault_faults[of "connected s" s])
  then show ?thesis
  proof cases
    case fail
    define k where "k = ncalls s2 - ncalls s - 2"
    have n2: "ncalls s2 = ncalls s + k + 2" using lt2 by (simp add: k_def)
    have kle: "k \<le> length its + 2" using fail(4) n2 by simp
    obtain res3 s3 where c: "catch_block m s2 = (res3, s3)"
      by (cases "catch_block m s2")
    note C = catch_block_facts[OF c]
    from C obtain e where tr3: "trace s3 = trace s2 @ [(Rollback, e)]" by auto
    have rs: "res = res3" "s' = client_release s3"
      using run conn t fail(1) c by (simp_all add: createBill_connected)
    have nf: "no_fault s (ncalls s) (ncalls s + k + 1)"
      using no_fault_trans[OF nfc] fail(3) n2 by simp
    have ff: "faults s (ncalls s + k + 1) = Some m"
      using fail(2) n2 by simp
    have vis2: "visible s2 = visible s"
      using fail by (simp add: visible_def)
    have vw: "views s' = views s @ replicate (k + 3) (visible s)"
      using rs C fail(7) n2 vis2 by (simp add: replicate_append_same eval_nat_numeral)
    have tr: "map fst (drop (length (trace s)) (trace s'))
          = Connect # take (k + 1) ?sc @ [Rollback, Release]"
      using rs tr3 evs n2 by simp
    have out: "(case faults s (ncalls s + k + 2) of
           None \<Rightarrow> res = Some (server_error m) \<and> \<not> tx_open s' \<and> tx_bills s' = [] \<and>
                   tx_items s' = []
         | Some e \<Rightarrow> res = None)"
      using C rs fl2 n2 by (cases "faults s (ncalls s + k + 2)") simp_all
    have db: "bills s' = bills s \<and> bill_items s' = bill_items s"
      using rs C fail by simp
    from kle nf ff db vw tr out show ?thesis
      by - (rule disjI1, rule exI[of _ k], rule exI[of _ m], simp)
  next
    case committed
    have nf: "no_fault s (ncalls s) (ncalls s + length its + 4)"
      using no_fault_trans[OF nfc] committed(1) by (simp add: eval_nat_numeral)
    have me: "map fst evs = ?sc"
      using evs(2) committed(2) by (simp add: script_def)
    show ?thesis
    proof (cases "faults s (ncalls s + length its + 4)")
      case None
      then obtain r0 where r0: "r = Inr r0" "status r0 = 201"
        using committed(9) by (auto simp: eval_nat_numeral)
      have rs: "res = Some r0" "s' = client_release s2"
        using run conn t r0 by (simp_all add: createBill_connected)
      have vw: "views s' = views s @ replicate (length its + 3) (visible s) @ replicate 2 (visible s')"
        using rs committed(8) by (simp add: eval_nat_numeral)
      have tr: "map fst (drop (length (trace s)) (trace s')) = Connect # ?sc @ [Release]"
        using rs evs(1) me by simp
      have db: "bills s' = bills s @ [persisted_bill req s] \<and>
        bill_items s' = bill_items s @ item_rows (item_seq s) (bill_seq s) its \<and>
        \<not> tx_open s' \<and> tx_bills s' = [] \<and> tx_items s' = []"
        using rs committed by simp
      from nf None rs r0 vw tr db show ?thesis by simp
    next
      case (Some m)
      then have r0: "r = Inl m"
        using committed(9) by (auto simp: eval_nat_numeral)
      obtain res3 s3 where c: "catch_block m s2 = (res3, s3)"
        by (cases "catch_block m s2")
      note C = catch_block_facts[OF c]
      from C obtain e where tr3: "trace s3 = trace s2 @ [(Rollback, e)]" by auto
      have rs: "res = res3" "s' = client_release s3"
        using run conn t r0 c by (simp_all add: createBill_connected)
      have vis: "visible s' = visible s2" "visible s3 = visible s2"
        using rs C by (simp_all add: visible_def)
      have vw: "views s' = views s @ replicate (length its + 3) (visible s) @ replicate 3 (visible s')"
        using rs C committed(8) vis by (simp add: eval_nat_numeral)
      have tr: "map fst (drop (length (trace s)) (trace s')) = Connect # ?sc @ [Rollback, Release]"
        using rs evs(1) me tr3 by simp
      have db: "bills s' = bills s @ [persisted_bill req s] \<and>
        bill_items s' = bill_items s @ item_rows (item_seq s) (bill_seq s) its"
        using rs C committed by simp
      have n2: "ncalls s2 = ncalls s + length its + 5"
        using committed(2) by simp
      have tx: "\<not> tx_open s' \<and> tx_bills s' = [] \<and> tx_items s' = []"
        using c committed(5,6,7) rs
        by (cases "faults s2 (ncalls s2)") (auto simp: catch_block_def call_fault call_Rollback)
      have out: "res = (case faults s (ncalls s + length its + 5) of
                            None \<Rightarrow> Some (server_error m) | Some e \<Rightarrow> None)"
        using C rs fl2 n2 by (cases "faults s (ncalls s + length its + 5)") simp_all
      from nf Some vw tr db tx out show ?thesis by simp
    qed
  qed
qed


section \<open>All of the bill or none of it\<close>

lemma length_item_rows [simp]: "length (item_rows k b its) = length its"
  by (induction its arbitrary: k) simp_all

lemma item_rows_bill_id: "map bi_bill_id (item_rows k b its) = replicate (length its) b"
  by (induction its arbitrary: k) (simp_all add: new_item_def)

lemma item_rows_items: "map item_of_row (item_rows k b its) = its"
  by (induction its arbitrary: k) (simp_all add: new_item_def item_of_row_def)

lemma item_rows_ids: "map bi_id (item_rows k b its) = [k..<k + length its]"
  by (induction its arbitrary: k) (simp_all add: new_item_def upt_rec)

lemma no_fault_mono: "no_fault s a c \<Longrightarrow> b \<le> c \<Longrightarrow> no_fault s a b"
  unfolding no_fault_iff by simp

lemma no_fault_at: "no_fault s a c \<Longrightarrow> a \<le> j \<Longrightarrow> j < c \<Longrightarrow> faults s j = None"
  unfolding no_fault_iff by simp

lemma createBill_no_connection:
  "faults s (ncalls s) = Some m \<Longrightarrow> createBill req s = (None, observe Connect (Some m) s)"
  by (simp add: createBill_def call_fault)

text \<open>
  C1. A request with a non-empty array of items, handled on a connection that holds no
  uncommitted rows: whatever call fails, the committed tables a reader finds after each call
  of the handler are first the tables as they were and then, from the commit on, the tables
  with exactly one more bill and one more row per item; nothing in between is ever seen.
  When no call fails the response is 201 and the bill and its \<open>length its\<close> items are
  committed. When the insert of the bill (\<open>k = 0\<close>) or of the \<open>k\<close>-th item fails, readers
  see the tables unchanged throughout, and once the \<^verbatim>\<open>ROLLBACK\<close> of the \<^verbatim>\<open>catch\<close> has
  gone through the transaction is closed with nothing pending and the response is 500 with
  the message of the failure.
\<close>

theorem createBill_atomic:
  assumes valid: "items req = Array its" "its \<noteq> []"
    and clean: "tx_bills s = []" "tx_items s = []"
  shows "(\<exists>n m. observed req s = replicate n (visible s) @ replicate m (full_view req s its) \<and>
               visible (snd (createBill req s))
                 = (if m = 0 then visible s else full_view req s its)) \<and>
         length (fst (full_view req s its)) = length (bills s) + 1 \<and>
         length (snd (full_view req s its)) = length (bill_items s) + length its \<and>
         (no_fault s (ncalls s) (ncalls s + length its + 5) \<longrightarrow>
            (\<exists>r. fst (createBill req s) = Some r \<and> status r = 201) \<and>
            visible (snd (createBill req s)) = full_view req s its) \<and>
         (\<forall>k m. k \<le> length its \<and> no_fault s (ncalls s) (ncalls s + k + 2) \<and>
                faults s (ncalls s + k + 2) = Some m \<longrightarrow>
            visible (snd (createBill req s)) = visible s \<and>
            observed req s = replicate (k + 4) (visible s) \<and>
            (faults s (ncalls s + k + 3) = None \<longrightarrow>
               fst (createBill req s) = Some (server_error m) \<and>
               \<not> tx_open (snd (createBill req s)) \<and>
               tx_bills (snd (createBill req s)) = [] \<and>
               tx_items (snd (createBill req s)) = []))"
proof -
  obtain res s' where run: "createBill req s = (res, s')"
    by (cases "createBill req s")
  let ?v = "visible s" and ?f = "full_view req s its"
  have full: "?f = (bills s @ [persisted_bill req s],
                    bill_items s @ item_rows (item_seq s) (bill_seq s) its)"
    by (simp add: full_view_def)
  have p1: "\<exists>n m. observed req s = replicate n ?v @ replicate m ?f \<and>
               visible s' = (if m = 0 then ?v else ?f)"
  proof (cases "faults s (ncalls s)")
    case (Some e)
    have "observed req s = replicate 1 ?v @ replicate 0 ?f \<and> visible s' = (if (0::nat) = 0 then ?v else ?f)"
      using run Some by (auto simp: observed_def createBill_no_connection)
    then show ?thesis by blast
  next
    case None
    from createBill_facts[OF None valid clean run] show ?thesis
    proof (elim disjE exE conjE)
      fix k m
      assume "views s' = views s @ replicate (k + 3) ?v" "bills s' = bills s"
        "bill_items s' = bill_items s"
      then have "observed req s = replicate (k + 3) ?v @ replicate 0 ?f \<and>
          visible s' = (if (0::nat) = 0 then ?v else ?f)"
        using run by (simp add: observed_def visible_def)
      then show ?thesis by blast
    next
      assume a: "bills s' = bills s @ [persisted_bill req s]"
        "bill_items s' = bill_items s @ item_rows (item_seq s) (bill_seq s) its"
        "case faults s (ncalls s + length its + 4) of
           None \<Rightarrow> (\<exists>r. res = Some r \<and> status r = 201) \<and>
                   views s' = views s @ replicate (length its + 3) (visible s) @
                                replicate 2 (visible s') \<and>
                   map fst (drop (length (trace s)) (trace s'))
                     = Connect # script req (bill_seq s) its @ [Release]
         | Some m \<Rightarrow> views s' = views s @ replicate (length its + 3) (visible s) @
                                replicate 3 (visible s') \<and>
                   map fst (drop (length (trace s)) (trace s'))
                     = Connect # script req (bill_seq s) its @ [Rollback, Release] \<and>
                   res = (case faults s (ncalls s + length its + 5) of
                            None \<Rightarrow> Some (server_error m) | Some e \<Rightarrow> None)"
      have vf: "visible s' = ?f" using a(1,2) full by (simp add: visible_def)
      have "\<exists>m>0. views s' = views s @ replicate (length its + 3) ?v @ replicate m ?f"
        using a(3) vf by (cases "faults s (ncalls s + length its + 4)") auto
      then obtain m where m: "m > 0"
        "views s' = views s @ replicate (length its + 3) ?v @ replicate m ?f"
        by blast
      have "observed req s = replicate (length its + 3) ?v @ replicate m ?f \<and>
          visible s' = (if m = 0 then ?v else ?f)"
        using run m vf by (simp add: observed_def)
      then show ?thesis by blast
    qed
  qed
  have p2: "length (fst ?f) = length (bills s) + 1 \<and>
         length (snd ?f) = length (bill_items s) + length its"
    by (simp add: full)
  have p3: "(\<exists>r. res = Some r \<and> status r = 201) \<and> visible s' = ?f"
    if nf: "no_fault s (ncalls s) (ncalls s + length its + 5)"
  proof -
    have conn: "faults s (ncalls s) = None"
      using no_fault_at[OF nf, of "ncalls s"] by simp
    have n4: "faults s (ncalls s + length its + 4) = None"
      using no_fault_at[OF nf, of "ncalls s + length its + 4"] by simp
    from createBill_facts[OF conn valid clean run] show ?thesis
    proof (elim disjE exE conjE)
      fix k m
      assume "k \<le> length its + 2" "faults s (ncalls s + k + 1) = Some m"
      then show ?thesis
        using no_fault_at[OF nf, of "ncalls s + k + 1"] by simp
    next
      assume a: "bills s' = bills s @ [persisted_bill req s]"
        "bill_items s' = bill_items s @ item_rows (item_seq s) (bill_seq s) its"
        "case faults s (ncalls s + length its + 4) of
           None \<Rightarrow> (\<exists>r. res = Some r \<and> status r = 201) \<and>
                   views s' = views s @ replicate (length its + 3) (visible s) @
                                replicate 2 (visible s') \<and>
                   map fst (drop (length (trace s)) (trace s'))
                     = Connect # script req (bill_seq s) its @ [Release]
         | Some m \<Rightarrow> views s' = views s @ replicate (length its + 3) (visible s) @
                                replicate 3 (visible s') \<and>
                   map fst (drop (length (trace s)) (trace s'))
                     = Connect # script req (bill_seq s) its @ [Rollback, Release] \<and>
                   res = (case faults s (ncalls s + length its + 5) of
                            None \<Rightarrow> Some (server_error m) | Some e \<Rightarrow> None)"
      then show ?thesis
        using n4 full by (simp add: visible_def)
    qed
  qed
  have p4: "visible s' = ?v \<and> observed req s = replicate (k + 4) ?v \<and>
            (faults s (ncalls s + k + 3) = None \<longrightarrow>
               res = Some (server_error m) \<and> \<not> tx_open s' \<and> tx_bills s' = [] \<and> tx_items s' = [])"
    if h: "k \<le> length its" "no_fault s (ncalls s) (ncalls s + k + 2)"
      "faults s (ncalls s + k + 2) = Some m" for k m
  proof -
    have conn: "faults s (ncalls s) = None"
      using no_fault_at[OF h(2), of "ncalls s"] by simp
    from createBill_facts[OF conn valid clean run] show ?thesis
    proof (elim disjE exE conjE)
      fix k' m'
      assume a: "no_fault s (ncalls s) (ncalls s + k' + 1)"
        "faults s (ncalls s + k' + 1) = Some m'"
        "bills s' = bills s" "bill_items s' = bill_items s"
        "views s' = views s @ replicate (k' + 3) ?v"
        "case faults s (ncalls s + k' + 2) of
           None \<Rightarrow> res = Some (server_error m') \<and> \<not> tx_open s' \<and> tx_bills s' = [] \<and>
                   tx_items s' = []
         | Some e \<Rightarrow> res = None"
      from first_fault_unique[OF a(1,2) h(2,3)]
      have eq: "k' = Suc k" "m' = m" by simp_all
      show ?thesis
        using a(3-6) run unfolding eq
        by (auto simp: observed_def visible_def eval_nat_numeral)
    next
      assume "no_fault s (ncalls s) (ncalls s + length its + 4)"
      from no_fault_at[OF this, of "ncalls s + k + 2"] h(1,3)
      show ?thesis by simp
    qed
  qed
  have p3': "no_fault s (ncalls s) (ncalls s + length its + 5) \<longrightarrow>
            (\<exists>r. res = Some r \<and> status r = 201) \<and> visible s' = ?f"
    using p3 by blast
  have p4': "\<forall>k m. k \<le> length its \<and> no_fault s (ncalls s) (ncalls s + k + 2) \<and>
                faults s (ncalls s + k + 2) = Some m \<longrightarrow>
            visible s' = ?v \<and> observed req s = replicate (k + 4) ?v \<and>
            (faults s (ncalls s + k + 3) = None \<longrightarrow>
               res = Some (server_error m) \<and> \<not> tx_open s' \<and> tx_bills s' = [] \<and> tx_items s' = [])"
    using p4 by blast
  show ?thesis
    unfolding run fst_conv snd_conv
    using p1 p2 p3' p4' by blast
qed


lemma example_no_fault: "no_fault example_store a b"
  by (simp add: no_fault_iff example_store_def)

lemma failing_no_fault: "b \<le> n \<Longrightarrow> no_fault (failing_store n) a b"
  by (simp add: no_fault_iff failing_store_def)

lemma example_valid:
  "items example_request = Array example_items" "example_items \<noteq> []"
  "tx_bills example_store = []" "tx_items example_store = []"
  "tx_bills (failing_store n) = []" "tx_items (failing_store n) = []"
  by (simp_all add: example_request_def example_items_def example_store_def failing_store_def)

theorem createBill_atomic_witness:
  "items example_request = Array example_items \<and> example_items \<noteq> [] \<and>
   tx_bills example_store = [] \<and> tx_items example_store = [] \<and>
   no_fault example_store (ncalls example_store) (ncalls example_store + length example_items + 5) \<and>
   visible (snd (createBill example_request example_store))
     = full_view example_request example_store example_items \<and>
   length (snd (full_view example_request example_store example_items)) = 2 \<and>
   tx_bills (failing_store 3) = [] \<and> tx_items (failing_store 3) = [] \<and>
   no_fault (failing_store 3) (ncalls (failing_store 3)) (ncalls (failing_store 3) + 1 + 2) \<and>
   faults (failing_store 3) (ncalls (failing_store 3) + 1 + 2) = Some ''boom'' \<and>
   faults (failing_store 3) (ncalls (failing_store 3) + 1 + 3) = None \<and>
   visible (snd (createBill example_request (failing_store 3))) = ([], []) \<and>
   observed example_request (failing_store 3) = replicate 5 ([], []) \<and>
   fst (createBill example_request (failing_store 3)) = Some (server_error ''boom'')"
proof -
  note A = createBill_atomic[OF example_valid(1,2,3,4)]
  note B = createBill_atomic[OF example_valid(1,2) example_valid(5,6)[of 3]]
  have nf: "no_fault example_store (ncalls example_store)
              (ncalls example_store + length example_items + 5)"
    by (rule example_no_fault)
  have n3: "ncalls (failing_store 3) = 0" "visible (failing_store 3) = ([], [])"
    "length example_items = 2"
    by (simp_all add: failing_store_def example_store_def visible_def example_items_def)
  have f3: "no_fault (failing_store 3) (ncalls (failing_store 3)) (ncalls (failing_store 3) + 1 + 2)"
    "faults (failing_store 3) (ncalls (failing_store 3) + 1 + 2) = Some ''boom''"
    "faults (failing_store 3) (ncalls (failing_store 3) + 1 + 3) = None"
    by (simp_all add: n3 failing_no_fault) (simp_all add: failing_store_def)
  from A nf have a: "visible (snd (createBill example_request example_store))
     = full_view example_request example_store example_items"
    "length (snd (full_view example_request example_store example_items)) = 2"
    by (simp_all add: example_store_def example_items_def)
  from B have "\<forall>k m. k \<le> length example_items \<and>
       no_fault (failing_store 3) (ncalls (failing_store 3)) (ncalls (failing_store 3) + k + 2) \<and>
       faults (failing_store 3) (ncalls (failing_store 3) + k + 2) = Some m \<longrightarrow>
         visible (snd (createBill example_request (failing_store 3))) = visible (failing_store 3) \<and>
         observed example_request (failing_store 3) = replicate (k + 4) (visible (failing_store 3)) \<and>
         (faults (failing_store 3) (ncalls (failing_store 3) + k + 3) = None \<longrightarrow>
            fst (createBill example_request (failing_store 3)) = Some (server_error m) \<and>
            \<not> tx_open (snd (createBill example_request (failing_store 3))) \<and>
            tx_bills (snd (createBill example_request (failing_store 3))) = [] \<and>
            tx_items (snd (createBill example_request (failing_store 3))) = [])"
    by blast
  from this[rule_format, of 1 "''boom''"] f3 n3
  have b: "visible (snd (createBill example_request (failing_store 3))) = ([], [])"
    "observed example_request (failing_store 3) = replicate 5 ([], [])"
    "fst (createBill example_request (failing_store 3)) = Some (server_error ''boom'')"
    by simp_all
  from example_valid nf f3 a b show ?thesis
    by simp
qed


section \<open>The order of the inserts, the read after the commit, the validation\<close>

lemma is_insert_simps [simp]:
  "is_insert (InsertBill a m sv u)" "is_insert (InsertItem b it)"
  "\<not> is_insert Connect" "\<not> is_insert Begin" "\<not> is_insert Commit" "\<not> is_insert Rollback"
  "\<not> is_insert (SelectBill b)" "\<not> is_insert Release"
  by (simp_all add: is_insert_def)

lemma filter_insert_items [simp]: "filter is_insert (map (InsertItem b) its) = map (InsertItem b) its"
  by (induction its) simp_all

lemma filter_insert_take_items:
  "filter is_insert (take k (map (InsertItem b) its @ [Commit, SelectBill b]))
     = take k (map (InsertItem b) its)"
proof -
  have 1: "filter is_insert (take k (map (InsertItem b) its)) = take k (map (InsertItem b) its)"
    by (simp add: take_map)
  have 2: "filter is_insert (take j [Commit, SelectBill b]) = []" for j
    by (simp add: take_Cons')
  show ?thesis by (simp add: 1 2)
qed

lemma filter_insert_script:
  "filter is_insert (take (Suc k) (script req b its))
     = take k (InsertBill (total_amount req) (total_mrp req) (total_savings req) (created_by req)
               # map (InsertItem b) its)"
  by (cases k) (simp_all add: script_def filter_insert_take_items del: take_append)

lemma filter_insert_script_all:
  "filter is_insert (script req b its)
     = InsertBill (total_amount req) (total_mrp req) (total_savings req) (created_by req)
         # map (InsertItem b) its"
  by (simp add: script_def)

text \<open>
  C7. A request with a non-empty array of items: whatever call fails, the inserts the
  handler sends are, in this order, the insert of the bill and then the inserts of the
  items in the order of the request, each carrying the id of the bill row returned by the
  first insert; the sequence stops at the first failure, so no item is inserted before the
  bill. When no call fails all of them are sent, between \<^verbatim>\<open>BEGIN\<close> and \<^verbatim>\<open>COMMIT\<close>, and the
  committed rows are the bill and one row per item, in the order of the items, each
  referencing the bill and holding the fields of its item.
\<close>

theorem createBill_insert_order:
  assumes valid: "items req = Array its" "its \<noteq> []"
    and clean: "tx_bills s = []" "tx_items s = []"
  shows "(\<exists>n. filter is_insert (issued req s)
              = take n (InsertBill (total_amount req) (total_mrp req) (total_savings req)
                          (created_by req) # map (InsertItem (bill_seq s)) its)) \<and>
         (no_fault s (ncalls s) (ncalls s + length its + 5) \<longrightarrow>
            issued req s = Connect # script req (bill_seq s) its @ [Release] \<and>
            bills (snd (createBill req s)) = bills s @ [persisted_bill req s] \<and>
            bill_items (snd (createBill req s))
              = bill_items s @ item_rows (item_seq s) (bill_seq s) its) \<and>
         b_id (persisted_bill req s) = bill_seq s \<and>
         map bi_bill_id (item_rows (item_seq s) (bill_seq s) its)
           = replicate (length its) (bill_seq s) \<and>
         map item_of_row (item_rows (item_seq s) (bill_seq s) its) = its"
proof -
  obtain res s' where run: "createBill req s = (res, s')"
    by (cases "createBill req s")
  let ?ins = "InsertBill (total_amount req) (total_mrp req) (total_savings req) (created_by req)
                # map (InsertItem (bill_seq s)) its"
  have iss: "issued req s = map fst (drop (length (trace s)) (trace s'))"
    by (simp add: issued_def run)
  have p1: "\<exists>n. filter is_insert (issued req s) = take n ?ins"
  proof (cases "faults s (ncalls s)")
    case (Some e)
    then have "filter is_insert (issued req s) = take 0 ?ins"
      using run by (auto simp: iss createBill_no_connection)
    then show ?thesis by blast
  next
    case None
    from createBill_facts[OF None valid clean run] show ?thesis
    proof (elim disjE exE conjE)
      fix k m
      assume "map fst (drop (length (trace s)) (trace s'))
          = Connect # take (k + 1) (script req (bill_seq s) its) @ [Rollback, Release]"
      then have "filter is_insert (issued req s) = take k ?ins"
        by (simp add: iss filter_insert_script)
      then show ?thesis by blast
    next
      assume a: "case faults s (ncalls s + length its + 4) of
           None \<Rightarrow> (\<exists>r. res = Some r \<and> status r = 201) \<and>
                   views s' = views s @ replicate (length its + 3) (visible s) @
                                replicate 2 (visible s') \<and>
                   map fst (drop (length (trace s)) (trace s'))
                     = Connect # script req (bill_seq s) its @ [Release]
         | Some m \<Rightarrow> views s' = views s @ replicate (length its + 3) (visible s) @
                                replicate 3 (visible s') \<and>
                   map fst (drop (length (trace s)) (trace s'))
                     = Connect # script req (bill_seq s) its @ [Rollback, Release] \<and>
                   res = (case faults s (ncalls s + length its + 5) of
                            None \<Rightarrow> Some (server_error m) | Some e \<Rightarrow> None)"
      have "filter is_insert (issued req s) = take (Suc (length its)) ?ins"
        using a by (cases "faults s (ncalls s + length its + 4)")
          (simp_all add: iss filter_insert_script_all)
      then show ?thesis by blast
    qed
  qed
  have p2: "issued req s = Connect # script req (bill_seq s) its @ [Release] \<and>
            bills s' = bills s @ [persisted_bill req s] \<and>
            bill_items s' = bill_items s @ item_rows (item_seq s) (bill_seq s) its"
    if nf: "no_fault s (ncalls s) (ncalls s + length its + 5)"
  proof -
    have conn: "faults s (ncalls s) = None"
      using no_fault_at[OF nf, of "ncalls s"] by simp
    have n4: "faults s (ncalls s + length its + 4) = None"
      using no_fault_at[OF nf, of "ncalls s + length its + 4"] by simp
    from createBill_facts[OF conn valid clean run] show ?thesis
    proof (elim disjE exE conjE)
      fix k m
      assume "k \<le> length its + 2" "faults s (ncalls s + k + 1) = Some m"
      then show ?thesis
        using no_fault_at[OF nf, of "ncalls s + k + 1"] by simp
    next
      assume a: "bills s' = bills s @ [persisted_bill req s]"
        "bill_items s' = bill_items s @ item_rows (item_seq s) (bill_seq s) its"
        "case faults s (ncalls s + length its + 4) of
           None \<Rightarrow> (\<exists>r. res = Some r \<and> status r = 201) \<and>
                   views s' = views s @ replicate (length its + 3) (visible s) @
                                replicate 2 (visible s') \<and>
                   map fst (drop (length (trace s)) (trace s'))
                     = Connect # script req (bill_seq s) its @ [Release]
         | Some m \<Rightarrow> views s' = views s @ replicate (length its + 3) (visible s) @
                                replicate 3 (visible s') \<and>
                   map fst (drop (length (trace s)) (trace s'))
                     = Connect # script req (bill_seq s) its @ [Rollback, Release] \<and>
                   res = (case faults s (ncalls s + length its + 5) of
                            None \<Rightarrow> Some (server_error m) | Some e \<Rightarrow> None)"
      then show ?thesis
        using n4 by (simp add: iss)
    qed
  qed
  have p2': "no_fault s (ncalls s) (ncalls s + length its + 5) \<longrightarrow>
            issued req s = Connect # script req (bill_seq s) its @ [Release] \<and>
            bills s' = bills s @ [persisted_bill req s] \<and>
            bill_items s' = bill_items s @ item_rows (item_seq s) (bill_seq s) its"
    using p2 by blast
  have p3: "b_id (persisted_bill req s) = bill_seq s"
    by (simp add: persisted_bill_def new_bill_def)
  show ?thesis
    unfolding run snd_conv
    using p1 p2' p3 item_rows_bill_id[of "item_seq s" "bill_seq s" its]
      item_rows_items[of "item_seq s" "bill_seq s" its]
    by blast
qed

theorem createBill_insert_order_witness:
  "items example_request = Array example_items \<and> example_items \<noteq> [] \<and>
   tx_bills example_store = [] \<and> tx_items example_store = [] \<and>
   no_fault example_store (ncalls example_store) (ncalls example_store + length example_items + 5) \<and>
   issued example_request example_store =
     [Connect, Begin, InsertBill (Some 25) (Some 30) (Some 5) (Some ''u1''),
      InsertItem 1 \<lparr>product_id = Some ''p1'', name = Some ''A'', price = Some 10,
                    mrp = Some 12, quantity = Some 2\<rparr>,
      InsertItem 1 \<lparr>product_id = Some ''p2'', name = Some ''B'', price = Some 5,
                    mrp = Some 6, quantity = Some 1\<rparr>,
      Commit, SelectBill 1, Release] \<and>
   map bi_bill_id (bill_items (snd (createBill example_request example_store))) = [1, 1] \<and>
   map item_of_row (bill_items (snd (createBill example_request example_store))) = example_items"
proof -
  note A = createBill_insert_order[OF example_valid(1,2,3,4)]
  have nf: "no_fault example_store (ncalls example_store)
              (ncalls example_store + length example_items + 5)"
    by (rule example_no_fault)
  from A nf have a: "issued example_request example_store
       = Connect # script example_request (bill_seq example_store) example_items @ [Release]"
    "bill_items (snd (createBill example_request example_store))
       = bill_items example_store @ item_rows (item_seq example_store) (bill_seq example_store) example_items"
    "map bi_bill_id (item_rows (item_seq example_store) (bill_seq example_store) example_items)
           = replicate (length example_items) (bill_seq example_store)"
    "map item_of_row (item_rows (item_seq example_store) (bill_seq example_store) example_items)
           = example_items"
    by simp_all
  have e: "bill_items example_store = []" "bill_seq example_store = 1"
    "length example_items = 2"
    by (simp_all add: example_store_def example_items_def)
  have i: "issued example_request example_store =
     [Connect, Begin, InsertBill (Some 25) (Some 30) (Some 5) (Some ''u1''),
      InsertItem 1 \<lparr>product_id = Some ''p1'', name = Some ''A'', price = Some 10,
                    mrp = Some 12, quantity = Some 2\<rparr>,
      InsertItem 1 \<lparr>product_id = Some ''p2'', name = Some ''B'', price = Some 5,
                    mrp = Some 6, quantity = Some 1\<rparr>,
      Commit, SelectBill 1, Release]"
    unfolding a(1) by (simp add: script_def example_request_def example_items_def example_store_def)
  have b: "map bi_bill_id (bill_items (snd (createBill example_request example_store))) = [1, 1]"
    unfolding a(2) using a(3) e by (simp add: numeral_2_eq_2)
  have c: "map item_of_row (bill_items (snd (createBill example_request example_store))) = example_items"
    unfolding a(2) using a(4) e by simp
  from example_valid nf i b c show ?thesis by simp
qed

text \<open>
  C10. When everything up to and including the \<^verbatim>\<open>COMMIT\<close> succeeds and the read that
  follows fails, the handler runs its \<^verbatim>\<open>catch\<close>: it sends a \<^verbatim>\<open>ROLLBACK\<close>, which undoes
  nothing since the transaction is over, and answers 500 with the message of the failed read,
  while the bill and all its items are committed.
\<close>

theorem createBill_read_fails_after_commit:
  assumes valid: "items req = Array its" "its \<noteq> []"
    and clean: "tx_bills s = []" "tx_items s = []"
    and written: "no_fault s (ncalls s) (ncalls s + length its + 4)"
    and read: "faults s (ncalls s + length its + 4) = Some m"
    and rollback: "faults s (ncalls s + length its + 5) = None"
  shows "fst (createBill req s) = Some (server_error m) \<and>
         status (server_error m) = 500 \<and>
         issued req s = Connect # script req (bill_seq s) its @ [Rollback, Release] \<and>
         bills (snd (createBill req s)) = bills s @ [persisted_bill req s] \<and>
         bill_items (snd (createBill req s))
           = bill_items s @ item_rows (item_seq s) (bill_seq s) its \<and>
         length (item_rows (item_seq s) (bill_seq s) its) = length its"
proof -
  obtain res s' where run: "createBill req s = (res, s')"
    by (cases "createBill req s")
  have iss: "issued req s = map fst (drop (length (trace s)) (trace s'))"
    by (simp add: issued_def run)
  have conn: "faults s (ncalls s) = None"
    using no_fault_at[OF written, of "ncalls s"] by simp
  from createBill_facts[OF conn valid clean run]
  have "res = Some (server_error m) \<and>
         issued req s = Connect # script req (bill_seq s) its @ [Rollback, Release] \<and>
         bills s' = bills s @ [persisted_bill req s] \<and>
         bill_items s' = bill_items s @ item_rows (item_seq s) (bill_seq s) its"
  proof (elim disjE exE conjE)
    fix k e
    assume "k \<le> length its + 2" "faults s (ncalls s + k + 1) = Some e"
    then show ?thesis
      using no_fault_at[OF written, of "ncalls s + k + 1"] by simp
  next
    assume a: "bills s' = bills s @ [persisted_bill req s]"
      "bill_items s' = bill_items s @ item_rows (item_seq s) (bill_seq s) its"
      "case faults s (ncalls s + length its + 4) of
           None \<Rightarrow> (\<exists>r. res = Some r \<and> status r = 201) \<and>
                   views s' = views s @ replicate (length its + 3) (visible s) @
                                replicate 2 (visible s') \<and>
                   map fst (drop (length (trace s)) (trace s'))
                     = Connect # script req (bill_seq s) its @ [Release]
         | Some m \<Rightarrow> views s' = views s @ replicate (length its + 3) (visible s) @
                                replicate 3 (visible s') \<and>
                   map fst (drop (length (trace s)) (trace s'))
                     = Connect # script req (bill_seq s) its @ [Rollback, Release] \<and>
                   res = (case faults s (ncalls s + length its + 5) of
                            None \<Rightarrow> Some (server_error m) | Some e \<Rightarrow> None)"
    then show ?thesis
      using read rollback by (simp add: iss)
  qed
  then show ?thesis
    unfolding run fst_conv snd_conv by (simp add: server_error_def)
qed

theorem createBill_read_fails_after_commit_witness:
  "items example_request = Array example_items \<and> example_items \<noteq> [] \<and>
   tx_bills (failing_store 6) = [] \<and> tx_items (failing_store 6) = [] \<and>
   no_fault (failing_store 6) (ncalls (failing_store 6))
     (ncalls (failing_store 6) + length example_items + 4) \<and>
   faults (failing_store 6) (ncalls (failing_store 6) + length example_items + 4) = Some ''boom'' \<and>
   faults (failing_store 6) (ncalls (failing_store 6) + length example_items + 5) = None \<and>
   fst (createBill example_request (failing_store 6)) = Some (server_error ''boom'') \<and>
   length (bills (snd (createBill example_request (failing_store 6)))) = 1 \<and>
   length (bill_items (snd (createBill example_request (failing_store 6)))) = 2"
proof -
  have n: "ncalls (failing_store 6) = 0" "length example_items = 2"
    "bills (failing_store 6) = []" "bill_items (failing_store 6) = []"
    by (simp_all add: failing_store_def example_store_def example_items_def)
  have f: "no_fault (failing_store 6) (ncalls (failing_store 6))
     (ncalls (failing_store 6) + length example_items + 4)"
    "faults (failing_store 6) (ncalls (failing_store 6) + length example_items + 4) = Some ''boom''"
    "faults (failing_store 6) (ncalls (failing_store 6) + length example_items + 5) = None"
    by (simp_all add: n failing_no_fault) (simp_all add: failing_store_def)
  note A = createBill_read_fails_after_commit[OF example_valid(1,2) example_valid(5,6)[of 6] f]
  from A n have "fst (createBill example_request (failing_store 6)) = Some (server_error ''boom'')"
   "length (bills (snd (createBill example_request (failing_store 6)))) = 1"
   "length (bill_items (snd (createBill example_request (failing_store 6)))) = 2"
    by simp_all
  with example_valid f show ?thesis by simp
qed

text \<open>
  The validation of \<^verbatim>\<open>items\<close> comes after \<^verbatim>\<open>pool.connect()\<close> and \<^verbatim>\<open>BEGIN\<close>: a request
  without a usable array is answered 400 once a connection is checked out and a transaction
  is open on it, and the connection goes back to the pool with that transaction neither
  committed nor rolled back.
\<close>

lemma createBill_rejects_after_begin:
  assumes "items req = Missing \<or> items req = NotAnArray \<or> items req = Array []"
    and "faults s (ncalls s) = None" "faults s (Suc (ncalls s)) = None"
  shows "createBill req s
     = (Some bad_request, client_release (observe Begin None ((connected s)\<lparr>tx_open := True\<rparr>)))"
  using assms
  by (auto simp: createBill_connected try_block_def call_Begin)

text \<open>
  C2, on the code: for an empty array of items the response is 400 and nothing is written,
  but the handler has by then checked out a connection and sent \<^verbatim>\<open>BEGIN\<close>, and it leaves
  the transaction open.
\<close>

theorem createBill_empty_items_opens_transaction:
  "fst (createBill (example_request\<lparr>items := Array []\<rparr>) example_store) = Some bad_request \<and>
   status bad_request = 400 \<and>
   trace (snd (createBill (example_request\<lparr>items := Array []\<rparr>) example_store))
     = [(Connect, None), (Begin, None), (Release, None)] \<and>
   \<not> tx_open example_store \<and>
   tx_open (snd (createBill (example_request\<lparr>items := Array []\<rparr>) example_store))"
proof -
  have "faults example_store (ncalls example_store) = None"
    "faults example_store (Suc (ncalls example_store)) = None"
    "items (example_request\<lparr>items := Array []\<rparr>) = Array []"
    by (simp_all add: example_store_def)
  then have "createBill (example_request\<lparr>items := Array []\<rparr>) example_store
     = (Some bad_request, client_release (observe Begin None ((connected example_store)\<lparr>tx_open := True\<rparr>)))"
    by (intro createBill_rejects_after_begin) simp_all
  then show ?thesis
    by (simp add: bad_request_def example_store_def)
qed


section \<open>The connection goes back to the pool\<close>

lemma run_pool:
  "c \<noteq> Release \<Longrightarrow> releases (snd (run c s)) = releases s"
  "c \<noteq> Release \<Longrightarrow> c \<noteq> Connect \<Longrightarrow> checked_out (snd (run c s)) = checked_out s"
  by (cases c; simp add: Let_def split: sum.splits)+

lemma call_pool:
  assumes "call c s = (r, s')" "c \<noteq> Release" "c \<noteq> Connect"
  shows "releases s' = releases s \<and> checked_out s' = checked_out s"
  using assms run_pool[of c s]
  by (auto simp: call_def split: option.splits sum.splits prod.splits)

lemma insert_items_pool:
  "insert_items b its s = (r, s') \<Longrightarrow> releases s' = releases s \<and> checked_out s' = checked_out s"
proof (induction its arbitrary: s)
  case Nil
  then show ?case by simp
next
  case (Cons it its)
  then show ?case
    by (auto split: prod.splits sum.splits dest!: call_pool)
qed

lemma insert_all_pool:
  "insert_all req its s = (r, s') \<Longrightarrow> releases s' = releases s \<and> checked_out s' = checked_out s"
  unfolding insert_all_def
  by (auto split: prod.splits sum.splits rows.splits list.splits dest!: call_pool insert_items_pool)

lemma commit_and_read_pool:
  "commit_and_read b s = (r, s') \<Longrightarrow> releases s' = releases s \<and> checked_out s' = checked_out s"
  unfolding commit_and_read_def
  by (auto split: prod.splits sum.splits dest!: call_pool)

lemma try_block_pool:
  "try_block req s = (r, s') \<Longrightarrow> releases s' = releases s \<and> checked_out s' = checked_out s"
  unfolding try_block_def
  by (auto split: prod.splits sum.splits items_field.splits if_splits
      dest!: call_pool insert_all_pool commit_and_read_pool)

lemma catch_block_pool:
  "catch_block e s = (r, s') \<Longrightarrow> releases s' = releases s \<and> checked_out s' = checked_out s"
  unfolding catch_block_def
  by (auto split: prod.splits sum.splits dest!: call_pool)

text \<open>
  When \<^verbatim>\<open>pool.connect()\<close> itself throws, nothing was checked out: the handler sends no
  response and releases nothing.
\<close>

lemma createBill_connect_fails:
  "faults s (ncalls s) = Some m \<Longrightarrow>
     fst (createBill req s) = None \<and>
     releases (snd (createBill req s)) = releases s \<and>
     checked_out (snd (createBill req s)) = checked_out s"
  by (simp add: createBill_def call_fault)

text \<open>
  C8. Once \<^verbatim>\<open>pool.connect()\<close> has handed out a connection, the handler releases it
  exactly once on every path, whatever fails afterwards and whatever the request holds:
  \<open>releases\<close> grows by one, the pool has as many connections out as before the request,
  and the release is the last thing the handler does.
\<close>

theorem createBill_releases_once:
  assumes "faults s (ncalls s) = None"
  shows "releases (snd (createBill req s)) = releases s + 1 \<and>
         checked_out (snd (createBill req s)) = checked_out s \<and>
         last (trace (snd (createBill req s))) = (Release, None)"
proof -
  let ?s1 = "observe Connect None (s\<lparr>checked_out := checked_out s + 1\<rparr>)"
  obtain r s2 where t: "try_block req ?s1 = (r, s2)"
    by (cases "try_block req ?s1")
  from try_block_pool[OF t]
  have p2: "releases s2 = releases s" "checked_out s2 = checked_out s + 1"
    by simp_all
  show ?thesis
  proof (cases r)
    case (Inr res)
    with assms t p2 show ?thesis
      by (simp add: createBill_def call_Connect)
  next
    case (Inl err)
    obtain res s3 where c: "catch_block err s2 = (res, s3)"
      by (cases "catch_block err s2")
    from catch_block_pool[OF c] p2
    have "releases s3 = releases s" "checked_out s3 = checked_out s + 1"
      by simp_all
    with assms t Inl c show ?thesis
      by (simp add: createBill_def call_Connect)
  qed
qed

theorem createBill_releases_once_witness:
  "faults example_store (ncalls example_store) = None \<and>
   releases (snd (createBill example_request example_store)) = 1 \<and>
   checked_out (snd (createBill example_request example_store)) = 0 \<and>
   last (trace (snd (createBill example_request example_store))) = (Release, None)"
  using createBill_releases_once[of example_store example_request]
  by (simp add: example_store_def)

section \<open>The filter of the summary\<close>

lemma show_nat_1: "show_nat (Suc 0) = ''1''" and show_nat_2: "show_nat (Suc (Suc 0)) = ''2''"
  by code_simp+

lemma build_filter_cases:
  "\<not> given st \<Longrightarrow> \<not> given en \<Longrightarrow>
     build_filter \<lparr>start = st, end_date = en, groupBy = g\<rparr> = ([], [])"
  "a \<noteq> [] \<Longrightarrow> \<not> given en \<Longrightarrow>
     build_filter \<lparr>start = Some a, end_date = en, groupBy = g\<rparr>
       = ('' WHERE b.created_at::date >= $1'', [a])"
  "\<not> given st \<Longrightarrow> z \<noteq> [] \<Longrightarrow>
     build_filter \<lparr>start = st, end_date = Some z, groupBy = g\<rparr>
       = ('' WHERE b.created_at::date <= $1'', [z])"
  "a \<noteq> [] \<Longrightarrow> z \<noteq> [] \<Longrightarrow>
     build_filter \<lparr>start = Some a, end_date = Some z, groupBy = g\<rparr>
       = ('' WHERE b.created_at::date >= $1 AND b.created_at::date <= $2'', [a, z])"
  by (auto simp: build_filter_def given_def push_condition_def show_nat_1 show_nat_2
      simp del: show_nat.simps split: option.splits)

lemmas parse_defs = parse_where_def tokens_def parse_cond_def parse_colref_def parse_cmp_def
  parse_param_def digit_val_def

lemma parse_filter_texts:
  "parse_where [] = Some []"
  "parse_where '' WHERE b.created_at::date >= $1'' = Some [Cond (Some ''b'') ''created_at'' Ge 1]"
  "parse_where '' WHERE b.created_at::date <= $1'' = Some [Cond (Some ''b'') ''created_at'' Le 1]"
  "parse_where '' WHERE b.created_at::date >= $1 AND b.created_at::date <= $2''
     = Some [Cond (Some ''b'') ''created_at'' Ge 1, Cond (Some ''b'') ''created_at'' Le 2]"
  "parse_where '' WHERE created_at::date >= $1'' = Some [Cond None ''created_at'' Ge 1]"
  "parse_where '' WHERE created_at::date <= $1'' = Some [Cond None ''created_at'' Le 1]"
  "parse_where '' WHERE created_at::date >= $1 AND created_at::date <= $2''
     = Some [Cond None ''created_at'' Ge 1, Cond None ''created_at'' Le 2]"
  by (simp_all add: parse_defs)

lemma strip_filter_texts:
  "strip_alias '' WHERE b.created_at::date >= $1'' = '' WHERE created_at::date >= $1''"
  "strip_alias '' WHERE b.created_at::date <= $1'' = '' WHERE created_at::date <= $1''"
  "strip_alias '' WHERE b.created_at::date >= $1 AND b.created_at::date <= $2''
     = '' WHERE created_at::date >= $1 AND created_at::date <= $2''"
  by simp_all

lemma in_range_funs:
  "in_range None None = (\<lambda>b. True)"
  "in_range (Some d) None = (\<lambda>b. d \<le> date_of (b_created_at b))"
  "in_range None (Some e) = (\<lambda>b. date_of (b_created_at b) \<le> e)"
  "in_range (Some d) (Some e) = (\<lambda>b. d \<le> date_of (b_created_at b) \<and> date_of (b_created_at b) \<le> e)"
  by (simp_all add: fun_eq_iff in_range_def)

lemma request_cases:
  obtains (neither) st en g where "req = \<lparr>start = st, end_date = en, groupBy = g\<rparr>"
      "\<not> given st" "\<not> given en"
  | (lower) a en g where "req = \<lparr>start = Some a, end_date = en, groupBy = g\<rparr>"
      "a \<noteq> []" "\<not> given en"
  | (upper) st z g where "req = \<lparr>start = st, end_date = Some z, groupBy = g\<rparr>"
      "\<not> given st" "z \<noteq> []"
  | (both) a z g where "req = \<lparr>start = Some a, end_date = Some z, groupBy = g\<rparr>"
      "a \<noteq> []" "z \<noteq> []"
proof (cases req)
  case (fields st en g)
  show ?thesis
  proof (cases "given st")
    case True
    then obtain a where a: "st = Some a" "a \<noteq> []"
      by (auto simp: given_def split: option.splits)
    show ?thesis
    proof (cases "given en")
      case True
      then obtain z where "en = Some z" "z \<noteq> []"
        by (auto simp: given_def split: option.splits)
      with a fields both show ?thesis by simp
    next
      case False
      with a fields lower show ?thesis by simp
    qed
  next
    case nst: False
    show ?thesis
    proof (cases "given en")
      case True
      then obtain z where "en = Some z" "z \<noteq> []"
        by (auto simp: given_def split: option.splits)
      with nst fields upper show ?thesis by simp
    next
      case False
      with nst fields neither show ?thesis by simp
    qed
  qed
qed

lemma not_given_bound: "\<not> given p \<Longrightarrow> bound s p = None"
  by (auto simp: given_def bound_def split: option.splits)

lemma compile_joined:
  "compile_where (cast_date s) FromBillsJoinItems (fst (build_filter req)) (snd (build_filter req))
     = date_filter s req"
proof (cases req rule: request_cases)
  case neither
  then show ?thesis
    by (simp add: build_filter_cases compile_where_def parse_filter_texts date_filter_def
        not_given_bound in_range_funs)
next
  case lower
  then show ?thesis
    by (simp add: build_filter_cases compile_where_def parse_filter_texts date_filter_def
        not_given_bound in_range_funs column_date_def table_name_def bound_def given_def
        split: option.splits)
next
  case upper
  then show ?thesis
    by (simp add: build_filter_cases compile_where_def parse_filter_texts date_filter_def
        not_given_bound in_range_funs column_date_def table_name_def bound_def given_def
        split: option.splits)
next
  case both
  then show ?thesis
    by (simp add: build_filter_cases compile_where_def parse_filter_texts date_filter_def
        not_given_bound in_range_funs column_date_def table_name_def bound_def given_def
        split: option.splits)
qed

lemma compile_stripped:
  "compile_where (cast_date s) FromBills (spliced (fst (build_filter req))) (snd (build_filter req))
     = date_filter s req"
proof (cases req rule: request_cases)
  case neither
  then show ?thesis
    by (simp add: build_filter_cases spliced_def compile_where_def parse_filter_texts
        date_filter_def not_given_bound in_range_funs)
next
  case lower
  then show ?thesis
    by (simp add: build_filter_cases spliced_def strip_filter_texts compile_where_def
        parse_filter_texts date_filter_def
        not_given_bound in_range_funs column_date_def table_name_def bound_def given_def
        del: strip_alias.simps split: option.splits)
next
  case upper
  then show ?thesis
    by (simp add: build_filter_cases spliced_def strip_filter_texts compile_where_def
        parse_filter_texts date_filter_def
        not_given_bound in_range_funs column_date_def table_name_def bound_def given_def
        del: strip_alias.simps split: option.splits)
next
  case both
  then show ?thesis
    by (simp add: build_filter_cases spliced_def strip_filter_texts compile_where_def
        parse_filter_texts date_filter_def
        not_given_bound in_range_funs column_date_def table_name_def bound_def given_def
        del: strip_alias.simps split: option.splits)
qed

text \<open>Without the stripping, the statement over \<^verbatim>\<open>bills\<close> alone does not run.\<close>

lemma compile_unstripped_fails:
  "given (start req) \<or> given (end_date req) \<Longrightarrow>
   compile_where (cast_date s) FromBills (fst (build_filter req)) (snd (build_filter req))
     = Inl ''missing FROM-clause entry for table b''"
proof (cases req rule: request_cases)
  case neither
  assume "given (start req) \<or> given (end_date req)"
  with neither show ?thesis by simp
next
  case lower
  then show ?thesis
    by (simp add: build_filter_cases compile_where_def parse_filter_texts
        column_date_def table_name_def)
next
  case upper
  then show ?thesis
    by (simp add: build_filter_cases compile_where_def parse_filter_texts
        column_date_def table_name_def)
next
  case both
  then show ?thesis
    by (simp add: build_filter_cases compile_where_def parse_filter_texts
        column_date_def table_name_def)
qed

lemma filter_join_items:
  "filter (\<lambda>j. p (fst j)) (join_items B I) = join_items (filter p B) I"
  by (induction B) (simp_all add: join_items_def filter_map comp_def)


section \<open>The summary\<close>

lemma call_query_Inr:
  "call (SummaryQuery t ps) s = (Inr r, s') \<Longrightarrow>
     \<exists>p. compile_where (cast_date s) FromBills t ps = Inr p \<and>
         r = TotalsRows [totals (filter p (bills s))] \<and>
         s' = observe (SummaryQuery t ps) None s"
  "call (ItemsSoldQuery t ps) s = (Inr r, s') \<Longrightarrow>
     \<exists>p. compile_where (cast_date s) FromBillsJoinItems t ps = Inr p \<and>
         r = ItemsSoldRows
               [items_sold (filter (\<lambda>j. p (fst j)) (join_items (bills s) (bill_items s)))] \<and>
         s' = observe (ItemsSoldQuery t ps) None s"
  "call (TopProductsQuery t ps) s = (Inr r, s') \<Longrightarrow>
     \<exists>p. compile_where (cast_date s) FromBillsJoinItems t ps = Inr p \<and>
         r = TopRows
               (top_products_of (group_rank s)
                  (filter (\<lambda>j. p (fst j)) (join_items (bills s) (bill_items s)))) \<and>
         s' = observe (TopProductsQuery t ps) None s"
  by (auto simp: call_def split: option.splits sum.splits)

lemma call_query_ok:
  "faults s (ncalls s) = None \<Longrightarrow> compile_where (cast_date s) FromBills t ps = Inr p \<Longrightarrow>
   call (SummaryQuery t ps) s
     = (Inr (TotalsRows [totals (filter p (bills s))]), observe (SummaryQuery t ps) None s)"
  "faults s (ncalls s) = None \<Longrightarrow> compile_where (cast_date s) FromBillsJoinItems t ps = Inr p \<Longrightarrow>
   call (ItemsSoldQuery t ps) s
     = (Inr (ItemsSoldRows
               [items_sold (filter (\<lambda>j. p (fst j)) (join_items (bills s) (bill_items s)))]),
        observe (ItemsSoldQuery t ps) None s)"
  "faults s (ncalls s) = None \<Longrightarrow> compile_where (cast_date s) FromBillsJoinItems t ps = Inr p \<Longrightarrow>
   call (TopProductsQuery t ps) s
     = (Inr (TopRows
               (top_products_of (group_rank s)
                  (filter (\<lambda>j. p (fst j)) (join_items (bills s) (bill_items s))))),
        observe (TopProductsQuery t ps) None s)"
  by (simp_all add: call_def)

lemma make_summary_over:
  "make_summary (TotalsRows [totals B]) (ItemsSoldRows [items_sold (join_items B I)])
     (TopRows (top_products_of rank (join_items B I))) = summary_over rank B I"
  by (simp add: make_summary_def summary_over_def first_totals_def first_items_sold_def
      top_rows_def totals_def)

lemma getSalesSummary_ok:
  assumes nf: "no_fault s (ncalls s) (ncalls s + 3)" and df: "date_filter s req = Inr P"
  shows "fst (getSalesSummary req s)
           = \<lparr>status = 200, body = SummaryBody (summary_over (group_rank s) (filter P (bills s)) (bill_items s))\<rparr>"
proof -
  obtain w ps where bf: "build_filter req = (w, ps)"
    by (cases "build_filter req")
  have c1: "compile_where (cast_date s) FromBills (spliced w) ps = Inr P"
    and c2: "compile_where (cast_date s) FromBillsJoinItems w ps = Inr P"
    using compile_stripped[of s req] compile_joined[of s req] bf df by simp_all
  have f: "faults s (ncalls s) = None" "faults s (Suc (ncalls s)) = None"
    "faults s (Suc (Suc (ncalls s))) = None"
    using no_fault_at[OF nf, of "ncalls s"] no_fault_at[OF nf, of "Suc (ncalls s)"]
      no_fault_at[OF nf, of "Suc (Suc (ncalls s))"] by simp_all
  show ?thesis
    using f c1 c2
    by (simp add: getSalesSummary_def bf call_query_ok filter_join_items make_summary_over)
qed

lemma getSalesSummary_body:
  assumes "getSalesSummary req s = (res, s')" "body res = SummaryBody sm"
  shows "\<exists>P. date_filter s req = Inr P \<and>
             sm = summary_over (group_rank s) (filter P (bills s)) (bill_items s)"
proof -
  obtain w ps where bf: "build_filter req = (w, ps)"
    by (cases "build_filter req")
  obtain r1 s1 where c1: "call (SummaryQuery (spliced w) ps) s = (r1, s1)"
    by (cases "call (SummaryQuery (spliced w) ps) s")
  obtain r2 s2 where c2: "call (ItemsSoldQuery w ps) s1 = (r2, s2)"
    by (cases "call (ItemsSoldQuery w ps) s1")
  obtain r3 s3 where c3: "call (TopProductsQuery w ps) s2 = (r3, s3)"
    by (cases "call (TopProductsQuery w ps) s2")
  from assms obtain x1 x2 x3 where ok: "r1 = Inr x1" "r2 = Inr x2" "r3 = Inr x3"
    and sm: "sm = make_summary x1 x2 x3"
    by (cases r1; cases r2; cases r3)
      (auto simp: getSalesSummary_def bf c1 c2 c3 server_error_def)
  from call_query_Inr(1)[OF c1[unfolded ok]] obtain p1 where
    p1: "compile_where (cast_date s) FromBills (spliced w) ps = Inr p1"
      "x1 = TotalsRows [totals (filter p1 (bills s))]" "s1 = observe (SummaryQuery (spliced w) ps) None s"
    by blast
  from call_query_Inr(2)[OF c2[unfolded ok]] obtain p2 where
    p2: "compile_where (cast_date s1) FromBillsJoinItems w ps = Inr p2"
      "x2 = ItemsSoldRows
               [items_sold (filter (\<lambda>j. p2 (fst j)) (join_items (bills s1) (bill_items s1)))]"
      "s2 = observe (ItemsSoldQuery w ps) None s1"
    by blast
  from call_query_Inr(3)[OF c3[unfolded ok]] obtain p3 where
    p3: "compile_where (cast_date s2) FromBillsJoinItems w ps = Inr p3"
      "x3 = TopRows
               (top_products_of (group_rank s2)
                  (filter (\<lambda>j. p3 (fst j)) (join_items (bills s2) (bill_items s2))))"
    by blast
  have d1: "date_filter s req = Inr p1"
    using compile_stripped[of s req] bf p1(1) by simp
  have d2: "p2 = p1" "p3 = p1"
    using compile_joined[of s req] bf p2(1) p3(1) d1 p1(3) p2(3) by simp_all
  have "sm = summary_over (group_rank s) (filter p1 (bills s)) (bill_items s)"
    unfolding sm p1(2) p2(2) p3(2) d2
    by (simp add: p1(3) p2(3) filter_join_items make_summary_over)
  with d1 show ?thesis by blast
qed

text \<open>
  C9. The handler reads \<^verbatim>\<open>groupBy\<close> from the query and never uses it: two requests that
  differ in \<^verbatim>\<open>groupBy\<close> only get the same response and leave the store in the same state.
\<close>

theorem groupBy_is_ignored:
  "getSalesSummary (req\<lparr>groupBy := g\<rparr>) s = getSalesSummary req s"
  by (simp add: getSalesSummary_def build_filter_def)

theorem groupBy_is_ignored_witness:
  "getSalesSummary (one_day\<lparr>groupBy := Some ''month''\<rparr>) dated_store
     = getSalesSummary (one_day\<lparr>groupBy := Some ''product''\<rparr>) dated_store"
  using groupBy_is_ignored[where req = one_day and g = "Some ''month''" and s = dated_store]
    groupBy_is_ignored[where req = one_day and g = "Some ''product''" and s = dated_store]
  by simp

lemma readable_date_filter:
  "readable s (start req) \<Longrightarrow> readable s (end_date req) \<Longrightarrow>
   date_filter s req = Inr (in_range (bound s (start req)) (bound s (end_date req)))"
  by (auto simp: date_filter_def readable_def bound_def given_def split: option.splits)

lemma date_of_day: "0 \<le> t \<Longrightarrow> t < 86400 \<Longrightarrow> date_of (d * 86400 + t) = d"
  by (simp add: date_of_def)

lemma in_range_iff:
  "in_range lo hi b \<longleftrightarrow>
     (\<forall>d. lo = Some d \<longrightarrow> d \<le> date_of (b_created_at b)) \<and>
     (\<forall>d. hi = Some d \<longrightarrow> date_of (b_created_at b) \<le> d)"
  by (auto simp: in_range_def split: option.splits)

lemma select_bills_joined:
  "select_bills s FromBillsJoinItems (fst (build_filter req)) (snd (build_filter req))
     = (case date_filter s req of Inl e \<Rightarrow> Inl e | Inr p \<Rightarrow> Inr (filter p (bills s)))"
  by (simp add: select_bills_def compile_joined)

lemma select_bills_stripped:
  "select_bills s FromBills (spliced (fst (build_filter req))) (snd (build_filter req))
     = (case date_filter s req of Inl e \<Rightarrow> Inl e | Inr p \<Rightarrow> Inr (filter p (bills s)))"
  by (simp add: select_bills_def compile_stripped)

text \<open>
  C5. When the store can read the dates that are given and no call fails, the summary is
  computed over exactly the bills whose creation date, the timestamp without its time of
  day, is on or after \<^verbatim>\<open>start\<close> if \<^verbatim>\<open>start\<close> is given and on or before \<^verbatim>\<open>end\<close> if \<^verbatim>\<open>end\<close>
  is given: both bounds when both are given, every bill when neither is. The bounds are
  inclusive, so a bill created at any time of the day \<^verbatim>\<open>start\<close> or of the day \<^verbatim>\<open>end\<close> is
  counted. A parameter is given when it is sent and is not the empty string.
\<close>

theorem summary_date_filter:
  assumes "readable s (start req)" "readable s (end_date req)"
    and "no_fault s (ncalls s) (ncalls s + 3)"
  shows "select_bills s FromBillsJoinItems (fst (build_filter req)) (snd (build_filter req))
           = Inr (filter (in_range (bound s (start req)) (bound s (end_date req))) (bills s)) \<and>
         fst (getSalesSummary req s)
           = \<lparr>status = 200,
              body = SummaryBody
                (summary_over (group_rank s)
                   (filter (in_range (bound s (start req)) (bound s (end_date req))) (bills s))
                   (bill_items s))\<rparr> \<and>
         (\<forall>lo hi b. in_range lo hi b \<longleftrightarrow>
            (\<forall>d. lo = Some d \<longrightarrow> d \<le> date_of (b_created_at b)) \<and>
            (\<forall>d. hi = Some d \<longrightarrow> date_of (b_created_at b) \<le> d)) \<and>
         (\<forall>p a. p = Some a \<and> a \<noteq> [] \<longrightarrow> bound s p = cast_date s a) \<and>
         (\<forall>p. \<not> given p \<longrightarrow> bound s p = None) \<and>
         (\<forall>d t. 0 \<le> t \<and> t < 86400 \<longrightarrow> date_of (d * 86400 + t) = d)"
proof -
  note df = readable_date_filter[OF assms(1,2)]
  have 1: "select_bills s FromBillsJoinItems (fst (build_filter req)) (snd (build_filter req))
           = Inr (filter (in_range (bound s (start req)) (bound s (end_date req))) (bills s))"
    by (simp add: select_bills_joined df)
  note 2 = getSalesSummary_ok[OF assms(3) df]
  have 3: "\<forall>p a. p = Some a \<and> a \<noteq> [] \<longrightarrow> bound s p = cast_date s a"
    by (simp add: bound_def)
  have 4: "\<forall>p. \<not> given p \<longrightarrow> bound s p = None"
    by (simp add: not_given_bound)
  have 5: "\<forall>lo hi b. in_range lo hi b \<longleftrightarrow>
            (\<forall>d. lo = Some d \<longrightarrow> d \<le> date_of (b_created_at b)) \<and>
            (\<forall>d. hi = Some d \<longrightarrow> date_of (b_created_at b) \<le> d)"
    by (intro allI in_range_iff)
  have 6: "\<forall>d t. 0 \<le> t \<and> t < 86400 \<longrightarrow> date_of (d * 86400 + t) = d"
    by (simp add: date_of_day)
  from 1 2 3 4 5 6 show ?thesis
    by - (intro conjI, assumption+)
qed

lemma dated_store_facts:
  "readable dated_store (start one_day)" "readable dated_store (end_date one_day)"
  "no_fault dated_store (ncalls dated_store) (ncalls dated_store + 3)"
  "bound dated_store (start one_day) = Some 19675"
  "bound dated_store (end_date one_day) = Some 19675"
  by (simp_all add: readable_def one_day_def dated_store_def example_store_def no_fault_iff
      bound_def)

theorem summary_date_filter_witness:
  "readable dated_store (start one_day) \<and> readable dated_store (end_date one_day) \<and>
   no_fault dated_store (ncalls dated_store) (ncalls dated_store + 3) \<and>
   select_bills dated_store FromBillsJoinItems (fst (build_filter one_day))
       (snd (build_filter one_day))
     = Inr [bill_at 2 1699920000, bill_at 3 1700006399] \<and>
   fst (getSalesSummary one_day dated_store)
     = \<lparr>status = 200,
        body = SummaryBody
          \<lparr>s_total_bills = Num 2, s_total_sales = Num 20, s_total_savings = Num 4,
           s_total_mrp = Num 24, s_total_items_sold = Num 2,
           s_top_products =
             [\<lparr>product_name = Some ''P1'', total_quantity = Num 1, total_revenue = Num 10,
               total_mrp_value = Num 12\<rparr>,
              \<lparr>product_name = Some ''P2'', total_quantity = Num 1, total_revenue = Num 8,
               total_mrp_value = Num 10\<rparr>]\<rparr>\<rparr>"
proof -
  note A = summary_date_filter[OF dated_store_facts(1,2,3)]
  have f: "filter (in_range (Some 19675) (Some 19675)) (bills dated_store)
      = [bill_at 2 1699920000, bill_at 3 1700006399]"
    by (simp add: dated_store_def in_range_def bill_at_def date_of_def)
  have i: "bill_items dated_store = [item_for 1 1 ''P1'' 10, item_for 2 2 ''P1'' 10,
      item_for 3 3 ''P2'' 8, item_for 4 4 ''P2'' 10]"
    by (simp add: dated_store_def)
  have s: "summary_over (group_rank dated_store)
        [bill_at 2 1699920000, bill_at 3 1700006399] (bill_items dated_store)
     = \<lparr>s_total_bills = Num 2, s_total_sales = Num 20, s_total_savings = Num 4,
           s_total_mrp = Num 24, s_total_items_sold = Num 2,
           s_top_products =
             [\<lparr>product_name = Some ''P1'', total_quantity = Num 1, total_revenue = Num 10,
               total_mrp_value = Num 12\<rparr>,
              \<lparr>product_name = Some ''P2'', total_quantity = Num 1, total_revenue = Num 8,
               total_mrp_value = Num 10\<rparr>]\<rparr>"
    unfolding i
    by (simp add: summary_over_def sql_sum_def sql_times_def join_items_def items_sold_def
        truthy_def top_products_of_def desc_key_def group_key_def group_row_def bill_at_def
        item_for_def dated_store_def example_store_def)
  from A have "select_bills dated_store FromBillsJoinItems (fst (build_filter one_day))
       (snd (build_filter one_day))
     = Inr (filter (in_range (bound dated_store (start one_day)) (bound dated_store (end_date one_day))) (bills dated_store))"
    "fst (getSalesSummary one_day dated_store)
           = \<lparr>status = 200,
              body = SummaryBody
                (summary_over (group_rank dated_store)
                   (filter (in_range (bound dated_store (start one_day)) (bound dated_store (end_date one_day))) (bills dated_store))
                   (bill_items dated_store))\<rparr>"
    by blast+
  then show ?thesis
    using dated_store_facts(1,2,3) unfolding dated_store_facts(4,5) f s by simp
qed

subsection \<open>One filter for the three statements\<close>

lemma run_trace: "trace (snd (run c s)) = trace s"
  by (cases c) (simp_all add: Let_def split: sum.splits)

lemma call_trace: "call c s = (r, s') \<Longrightarrow> \<exists>e. trace s' = trace s @ [(c, e)]"
  using run_trace[of c s]
  by (auto simp: call_def split: option.splits sum.splits prod.splits)

lemma getSalesSummary_sent:
  assumes bf: "build_filter req = (w, ps)"
  shows "(\<exists>n. sent req s
              = take (Suc n) [SummaryQuery (spliced w) ps, ItemsSoldQuery w ps,
                              TopProductsQuery w ps]) \<and>
         (\<forall>sm. body (fst (getSalesSummary req s)) = SummaryBody sm \<longrightarrow>
            sent req s = [SummaryQuery (spliced w) ps, ItemsSoldQuery w ps,
                          TopProductsQuery w ps])"
proof -
  let ?q1 = "SummaryQuery (spliced w) ps" and ?q2 = "ItemsSoldQuery w ps"
    and ?q3 = "TopProductsQuery w ps"
  obtain r1 s1 where c1: "call ?q1 s = (r1, s1)" by (cases "call ?q1 s")
  obtain r2 s2 where c2: "call ?q2 s1 = (r2, s2)" by (cases "call ?q2 s1")
  obtain r3 s3 where c3: "call ?q3 s2 = (r3, s3)" by (cases "call ?q3 s2")
  from call_trace[OF c1] obtain e1 where t1: "trace s1 = trace s @ [(?q1, e1)]" by blast
  from call_trace[OF c2] obtain e2 where t2: "trace s2 = trace s1 @ [(?q2, e2)]" by blast
  from call_trace[OF c3] obtain e3 where t3: "trace s3 = trace s2 @ [(?q3, e3)]" by blast
  show ?thesis
  proof (cases r1)
    case (Inl e)
    then have "sent req s = take (Suc 0) [?q1, ?q2, ?q3]"
      and "\<forall>sm. body (fst (getSalesSummary req s)) \<noteq> SummaryBody sm"
      by (simp_all add: sent_def getSalesSummary_def bf c1 t1 server_error_def)
    then show ?thesis by blast
  next
    case r1: (Inr x1)
    show ?thesis
    proof (cases r2)
      case (Inl e)
      then have "sent req s = take (Suc (Suc 0)) [?q1, ?q2, ?q3]"
        and "\<forall>sm. body (fst (getSalesSummary req s)) \<noteq> SummaryBody sm"
        by (simp_all add: sent_def getSalesSummary_def bf c1 c2 r1 t1 t2 server_error_def)
      then show ?thesis by blast
    next
      case r2: (Inr x2)
      have full: "sent req s = [?q1, ?q2, ?q3]"
        by (cases r3) (simp_all add: sent_def getSalesSummary_def bf c1 c2 c3 r1 r2 t1 t2 t3)
      then have "sent req s = take (Suc (Suc (Suc 0))) [?q1, ?q2, ?q3]"
        by simp
      with full show ?thesis by blast
    qed
  qed
qed

lemma getSalesSummary_unreadable:
  assumes "faults s (ncalls s) = None" "date_filter s req = Inl e"
  shows "fst (getSalesSummary req s) = server_error e"
proof -
  obtain w ps where bf: "build_filter req = (w, ps)"
    by (cases "build_filter req")
  have "compile_where (cast_date s) FromBills (spliced w) ps = Inl e"
    using compile_stripped[of s req] bf assms(2) by simp
  then show ?thesis
    using assms(1) by (simp add: getSalesSummary_def bf call_def)
qed

lemma dated_store_summary:
  "summary_over (group_rank dated_store)
        [bill_at 2 1699920000, bill_at 3 1700006399] (bill_items dated_store)
     = \<lparr>s_total_bills = Num 2, s_total_sales = Num 20, s_total_savings = Num 4,
           s_total_mrp = Num 24, s_total_items_sold = Num 2,
           s_top_products =
             [\<lparr>product_name = Some ''P1'', total_quantity = Num 1, total_revenue = Num 10,
               total_mrp_value = Num 12\<rparr>,
              \<lparr>product_name = Some ''P2'', total_quantity = Num 1, total_revenue = Num 8,
               total_mrp_value = Num 10\<rparr>]\<rparr>"
  by (simp add: summary_over_def sql_sum_def sql_times_def join_items_def items_sold_def
        truthy_def top_products_of_def desc_key_def group_key_def group_row_def bill_at_def
        item_for_def dated_store_def example_store_def)

text \<open>
  C6. Whatever the request and the store, the filter text with the alias taken out selects,
  in the statement over \<^verbatim>\<open>bills\<close> alone, the same bills as the text with the alias selects
  in the two statements that join \<^verbatim>\<open>bills b\<close> with the items, or both fail with the same
  error. The handler sends the statement of the totals with the stripped text, then the two
  joining statements with the text as built, all three with the same parameters, and stops
  at the first that fails. Every summary it returns was preceded by all three statements and
  is computed, totals, items sold and ranking alike, from the one list of bills that both
  readings of the filter select. When no call to the store fails, the response is that
  summary, or 500 with the error of the store when a date cannot be read. The text with the
  alias left in would not run in the statement over \<^verbatim>\<open>bills\<close> alone.
\<close>

theorem alias_stripped_filter_same_bills:
  assumes "build_filter req = (w, ps)"
  shows "select_bills s FromBills (spliced w) ps = select_bills s FromBillsJoinItems w ps \<and>
         (\<exists>n. sent req s
              = take (Suc n) [SummaryQuery (spliced w) ps, ItemsSoldQuery w ps,
                              TopProductsQuery w ps]) \<and>
         (\<forall>sm. body (fst (getSalesSummary req s)) = SummaryBody sm \<longrightarrow>
            sent req s = [SummaryQuery (spliced w) ps, ItemsSoldQuery w ps,
                          TopProductsQuery w ps] \<and>
            (\<exists>B. select_bills s FromBills (spliced w) ps = Inr B \<and>
                 select_bills s FromBillsJoinItems w ps = Inr B \<and>
                 sm = summary_over (group_rank s) B (bill_items s))) \<and>
         (no_fault s (ncalls s) (ncalls s + 3) \<longrightarrow>
            fst (getSalesSummary req s)
              = (case select_bills s FromBillsJoinItems w ps of
                   Inl e \<Rightarrow> server_error e
                 | Inr B \<Rightarrow>
                     \<lparr>status = 200,
                      body = SummaryBody (summary_over (group_rank s) B (bill_items s))\<rparr>)) \<and>
         (\<forall>rank B I.
            s_total_bills (summary_over rank B I) = Num (of_nat (length B)) \<and>
            s_total_sales (summary_over rank B I) = sql_sum (map b_total_amount B) \<and>
            s_total_savings (summary_over rank B I) = sql_sum (map b_total_savings B) \<and>
            s_total_mrp (summary_over rank B I) = sql_sum (map b_total_mrp B) \<and>
            s_total_items_sold (summary_over rank B I)
              = (if truthy (items_sold (join_items B I)) then items_sold (join_items B I)
                 else Num 0) \<and>
            s_top_products (summary_over rank B I) = top_products_of rank (join_items B I)) \<and>
         fst (run (SummaryQuery (spliced w) ps) s)
           = (case select_bills s FromBillsJoinItems w ps of
                Inl e \<Rightarrow> Inl e
              | Inr B \<Rightarrow> Inr (TotalsRows [totals B])) \<and>
         fst (run (ItemsSoldQuery w ps) s)
           = (case select_bills s FromBillsJoinItems w ps of
                Inl e \<Rightarrow> Inl e
              | Inr B \<Rightarrow> Inr (ItemsSoldRows [items_sold (join_items B (bill_items s))])) \<and>
         fst (run (TopProductsQuery w ps) s)
           = (case select_bills s FromBillsJoinItems w ps of
                Inl e \<Rightarrow> Inl e
              | Inr B \<Rightarrow>
                  Inr (TopRows (top_products_of (group_rank s)
                                  (join_items B (bill_items s))))) \<and>
         (w \<noteq> [] \<longrightarrow> select_bills s FromBills w ps = Inl ''missing FROM-clause entry for table b'')"
proof -
  have c1: "compile_where (cast_date s) FromBills (spliced w) ps = date_filter s req"
    and c2: "compile_where (cast_date s) FromBillsJoinItems w ps = date_filter s req"
    using compile_stripped[of s req] compile_joined[of s req] assms by simp_all
  have sel: "select_bills s FromBills (spliced w) ps
      = (case date_filter s req of Inl e \<Rightarrow> Inl e | Inr p \<Rightarrow> Inr (filter p (bills s)))"
    "select_bills s FromBillsJoinItems w ps
      = (case date_filter s req of Inl e \<Rightarrow> Inl e | Inr p \<Rightarrow> Inr (filter p (bills s)))"
    by (simp_all add: select_bills_def c1 c2)
  have p1: "select_bills s FromBills (spliced w) ps = select_bills s FromBillsJoinItems w ps"
    by (simp add: sel)
  note S = getSalesSummary_sent[OF assms, of s]
  have p2: "\<exists>n. sent req s
              = take (Suc n) [SummaryQuery (spliced w) ps, ItemsSoldQuery w ps,
                              TopProductsQuery w ps]"
    using S by blast
  have p3: "\<forall>sm. body (fst (getSalesSummary req s)) = SummaryBody sm \<longrightarrow>
            sent req s = [SummaryQuery (spliced w) ps, ItemsSoldQuery w ps,
                          TopProductsQuery w ps] \<and>
            (\<exists>B. select_bills s FromBills (spliced w) ps = Inr B \<and>
                 select_bills s FromBillsJoinItems w ps = Inr B \<and>
                 sm = summary_over (group_rank s) B (bill_items s))"
  proof (intro allI impI conjI)
    fix sm
    assume b: "body (fst (getSalesSummary req s)) = SummaryBody sm"
    show "sent req s = [SummaryQuery (spliced w) ps, ItemsSoldQuery w ps,
                          TopProductsQuery w ps]"
      using S b by blast
    have r: "getSalesSummary req s = (fst (getSalesSummary req s), snd (getSalesSummary req s))"
      by simp
    from getSalesSummary_body[OF r b] obtain P where
      P: "date_filter s req = Inr P"
        "sm = summary_over (group_rank s) (filter P (bills s)) (bill_items s)"
      by blast
    then show "\<exists>B. select_bills s FromBills (spliced w) ps = Inr B \<and>
                 select_bills s FromBillsJoinItems w ps = Inr B \<and>
                 sm = summary_over (group_rank s) B (bill_items s)"
      by (simp add: sel)
  qed
  have p4: "no_fault s (ncalls s) (ncalls s + 3) \<longrightarrow>
            fst (getSalesSummary req s)
              = (case select_bills s FromBillsJoinItems w ps of
                   Inl e \<Rightarrow> server_error e
                 | Inr B \<Rightarrow>
                     \<lparr>status = 200,
                      body = SummaryBody (summary_over (group_rank s) B (bill_items s))\<rparr>)"
  proof
    assume nf: "no_fault s (ncalls s) (ncalls s + 3)"
    have f0: "faults s (ncalls s) = None"
      using no_fault_at[OF nf, of "ncalls s"] by simp
    show "fst (getSalesSummary req s)
              = (case select_bills s FromBillsJoinItems w ps of
                   Inl e \<Rightarrow> server_error e
                 | Inr B \<Rightarrow>
                     \<lparr>status = 200,
                      body = SummaryBody (summary_over (group_rank s) B (bill_items s))\<rparr>)"
    proof (cases "date_filter s req")
      case (Inl e)
      with getSalesSummary_unreadable[OF f0 Inl] show ?thesis by (simp add: sel)
    next
      case (Inr P)
      with getSalesSummary_ok[OF nf Inr] show ?thesis by (simp add: sel)
    qed
  qed
  have p5: "\<forall>rank B I.
            s_total_bills (summary_over rank B I) = Num (of_nat (length B)) \<and>
            s_total_sales (summary_over rank B I) = sql_sum (map b_total_amount B) \<and>
            s_total_savings (summary_over rank B I) = sql_sum (map b_total_savings B) \<and>
            s_total_mrp (summary_over rank B I) = sql_sum (map b_total_mrp B) \<and>
            s_total_items_sold (summary_over rank B I)
              = (if truthy (items_sold (join_items B I)) then items_sold (join_items B I)
                 else Num 0) \<and>
            s_top_products (summary_over rank B I) = top_products_of rank (join_items B I)"
    by (simp add: summary_over_def)
  have g: "given (start req) \<or> given (end_date req)" if "w \<noteq> []"
    using that assms
    by (cases "given (start req) \<or> given (end_date req)") (simp_all add: build_filter_def)
  have p9: "w \<noteq> [] \<longrightarrow> select_bills s FromBills w ps = Inl ''missing FROM-clause entry for table b''"
    using compile_unstripped_fails[of req s] g assms by (simp add: select_bills_def)
  have p6: "fst (run (SummaryQuery (spliced w) ps) s)
           = (case select_bills s FromBillsJoinItems w ps of
                Inl e \<Rightarrow> Inl e
              | Inr B \<Rightarrow> Inr (TotalsRows [totals B]))"
    and p7: "fst (run (ItemsSoldQuery w ps) s)
           = (case select_bills s FromBillsJoinItems w ps of
                Inl e \<Rightarrow> Inl e
              | Inr B \<Rightarrow> Inr (ItemsSoldRows [items_sold (join_items B (bill_items s))]))"
    and p8: "fst (run (TopProductsQuery w ps) s)
           = (case select_bills s FromBillsJoinItems w ps of
                Inl e \<Rightarrow> Inl e
              | Inr B \<Rightarrow>
                  Inr (TopRows (top_products_of (group_rank s)
                                  (join_items B (bill_items s)))))"
    by (cases "date_filter s req"; simp add: select_bills_def c1 c2 filter_join_items)+
  from p1 p2 p3 p4 p5 p6 p7 p8 p9 show ?thesis
    by - (intro conjI, assumption+)
qed

theorem alias_stripped_filter_same_bills_witness:
  "build_filter one_day
     = ('' WHERE b.created_at::date >= $1 AND b.created_at::date <= $2'',
        [''2023-11-14'', ''2023-11-14'']) \<and>
   spliced '' WHERE b.created_at::date >= $1 AND b.created_at::date <= $2''
     = '' WHERE created_at::date >= $1 AND created_at::date <= $2'' \<and>
   no_fault dated_store (ncalls dated_store) (ncalls dated_store + 3) \<and>
   select_bills dated_store FromBills
       '' WHERE created_at::date >= $1 AND created_at::date <= $2''
       [''2023-11-14'', ''2023-11-14'']
     = Inr [bill_at 2 1699920000, bill_at 3 1700006399] \<and>
   select_bills dated_store FromBillsJoinItems
       '' WHERE b.created_at::date >= $1 AND b.created_at::date <= $2''
       [''2023-11-14'', ''2023-11-14'']
     = Inr [bill_at 2 1699920000, bill_at 3 1700006399] \<and>
   sent one_day dated_store
     = [SummaryQuery '' WHERE created_at::date >= $1 AND created_at::date <= $2''
          [''2023-11-14'', ''2023-11-14''],
        ItemsSoldQuery '' WHERE b.created_at::date >= $1 AND b.created_at::date <= $2''
          [''2023-11-14'', ''2023-11-14''],
        TopProductsQuery '' WHERE b.created_at::date >= $1 AND b.created_at::date <= $2''
          [''2023-11-14'', ''2023-11-14'']] \<and>
   fst (getSalesSummary one_day dated_store)
     = \<lparr>status = 200,
        body = SummaryBody
          \<lparr>s_total_bills = Num 2, s_total_sales = Num 20, s_total_savings = Num 4,
           s_total_mrp = Num 24, s_total_items_sold = Num 2,
           s_top_products =
             [\<lparr>product_name = Some ''P1'', total_quantity = Num 1, total_revenue = Num 10,
               total_mrp_value = Num 12\<rparr>,
              \<lparr>product_name = Some ''P2'', total_quantity = Num 1, total_revenue = Num 8,
               total_mrp_value = Num 10\<rparr>]\<rparr>\<rparr>"
proof -
  have bf: "build_filter one_day
     = ('' WHERE b.created_at::date >= $1 AND b.created_at::date <= $2'',
        [''2023-11-14'', ''2023-11-14''])"
    by (simp add: one_day_def build_filter_cases)
  have sp: "spliced '' WHERE b.created_at::date >= $1 AND b.created_at::date <= $2''
     = '' WHERE created_at::date >= $1 AND created_at::date <= $2''"
    by (simp add: spliced_def strip_filter_texts del: strip_alias.simps)
  note A = alias_stripped_filter_same_bills[OF bf, of dated_store]
  have j: "select_bills dated_store FromBillsJoinItems
       '' WHERE b.created_at::date >= $1 AND b.created_at::date <= $2''
       [''2023-11-14'', ''2023-11-14'']
     = Inr [bill_at 2 1699920000, bill_at 3 1700006399]"
    by (simp add: select_bills_def compile_where_def parse_filter_texts column_date_def
        table_name_def dated_store_def example_store_def bill_at_def date_of_def)
  have nf: "no_fault dated_store (ncalls dated_store) (ncalls dated_store + 3)"
    by (rule dated_store_facts(3))
  from A nf have r: "fst (getSalesSummary one_day dated_store)
      = (case select_bills dated_store FromBillsJoinItems
                '' WHERE b.created_at::date >= $1 AND b.created_at::date <= $2''
                [''2023-11-14'', ''2023-11-14''] of
           Inl e \<Rightarrow> server_error e
         | Inr B \<Rightarrow>
             \<lparr>status = 200,
              body = SummaryBody (summary_over (group_rank dated_store) B
                                    (bill_items dated_store))\<rparr>)"
    by blast
  have r': "fst (getSalesSummary one_day dated_store)
     = \<lparr>status = 200,
        body = SummaryBody
          \<lparr>s_total_bills = Num 2, s_total_sales = Num 20, s_total_savings = Num 4,
           s_total_mrp = Num 24, s_total_items_sold = Num 2,
           s_top_products =
             [\<lparr>product_name = Some ''P1'', total_quantity = Num 1, total_revenue = Num 10,
               total_mrp_value = Num 12\<rparr>,
              \<lparr>product_name = Some ''P2'', total_quantity = Num 1, total_revenue = Num 8,
               total_mrp_value = Num 10\<rparr>]\<rparr>\<rparr>"
    unfolding r j by (simp add: dated_store_summary)
  from A have "\<forall>sm. body (fst (getSalesSummary one_day dated_store)) = SummaryBody sm \<longrightarrow>
            sent one_day dated_store
              = [SummaryQuery (spliced '' WHERE b.created_at::date >= $1 AND b.created_at::date <= $2'')
                   [''2023-11-14'', ''2023-11-14''],
                 ItemsSoldQuery '' WHERE b.created_at::date >= $1 AND b.created_at::date <= $2''
                   [''2023-11-14'', ''2023-11-14''],
                 TopProductsQuery '' WHERE b.created_at::date >= $1 AND b.created_at::date <= $2''
                   [''2023-11-14'', ''2023-11-14'']] \<and>
            (\<exists>B. select_bills dated_store FromBills (spliced '' WHERE b.created_at::date >= $1 AND b.created_at::date <= $2'') [''2023-11-14'', ''2023-11-14''] = Inr B \<and>
                 select_bills dated_store FromBillsJoinItems '' WHERE b.created_at::date >= $1 AND b.created_at::date <= $2'' [''2023-11-14'', ''2023-11-14''] = Inr B \<and>
                 sm = summary_over (group_rank dated_store) B (bill_items dated_store))"
    by - (elim conjE, assumption)
  then have se: "sent one_day dated_store
     = [SummaryQuery '' WHERE created_at::date >= $1 AND created_at::date <= $2''
          [''2023-11-14'', ''2023-11-14''],
        ItemsSoldQuery '' WHERE b.created_at::date >= $1 AND b.created_at::date <= $2''
          [''2023-11-14'', ''2023-11-14''],
        TopProductsQuery '' WHERE b.created_at::date >= $1 AND b.created_at::date <= $2''
          [''2023-11-14'', ''2023-11-14'']]"
    unfolding sp r' by simp
  from A have eq: "select_bills dated_store FromBills
       (spliced '' WHERE b.created_at::date >= $1 AND b.created_at::date <= $2'')
       [''2023-11-14'', ''2023-11-14'']
     = select_bills dated_store FromBillsJoinItems
       '' WHERE b.created_at::date >= $1 AND b.created_at::date <= $2''
       [''2023-11-14'', ''2023-11-14'']"
    by - (elim conjE, assumption)
  from bf sp nf j se r' eq[unfolded sp j] show ?thesis
    by - (intro conjI, assumption+)
qed

subsection \<open>A summary of no bills\<close>

lemma summary_without_bills:
  assumes "bills s = []" "no_fault s (ncalls s) (ncalls s + 3)"
    "\<not> given (start req)" "\<not> given (end_date req)"
  shows "fst (getSalesSummary req s)
     = \<lparr>status = 200,
        body = SummaryBody
          \<lparr>s_total_bills = Num 0, s_total_sales = Null, s_total_savings = Null,
           s_total_mrp = Null, s_total_items_sold = Num 0, s_top_products = []\<rparr>\<rparr>"
proof -
  have "date_filter s req = Inr (in_range None None)"
    using assms(3,4) by (simp add: date_filter_def not_given_bound)
  from getSalesSummary_ok[OF assms(2) this] show ?thesis
    using assms(1)
    by (simp add: summary_over_def sql_sum_def join_items_def items_sold_def truthy_def
        top_products_of_def)
qed

text \<open>
  C3, on the code: over a store without any bill and without date filters, the count of
  bills is zero, the number of items sold is zero and the ranking is empty, but the three
  sums of the bill-level statement are \<^verbatim>\<open>NULL\<close>, not zero. That statement is an aggregate
  without \<^verbatim>\<open>GROUP BY\<close>: it returns one row whatever the table holds, so the default
  object of zeros behind \<^verbatim>\<open>||\<close> is never taken.
\<close>

theorem summary_of_no_bills_has_null_totals:
  "bills example_store = [] \<and>
   fst (getSalesSummary no_filter example_store)
     = \<lparr>status = 200,
        body = SummaryBody
          \<lparr>s_total_bills = Num 0, s_total_sales = Null, s_total_savings = Null,
           s_total_mrp = Null, s_total_items_sold = Num 0, s_top_products = []\<rparr>\<rparr> \<and>
   Null \<noteq> Num 0"
proof -
  have "bills example_store = []" "\<not> given (start no_filter)" "\<not> given (end_date no_filter)"
    by (simp_all add: example_store_def no_filter_def given_def)
  with summary_without_bills[OF _ example_no_fault, of no_filter] show ?thesis
    by simp
qed


section \<open>The ranking of products\<close>

lemma insort_key_map:
  "insort_key f (g x) (map g ys) = map g (insort_key (\<lambda>y. f (g y)) x ys)"
  by (induction ys) simp_all

lemma sort_key_map: "sort_key f (map g xs) = map g (sort_key (\<lambda>y. f (g y)) xs)"
  by (induction xs) (simp_all add: insort_key_map)

lemma top_products_of_keys:
  "top_products_of rank js = map (\<lambda>k. group_row k js) (top_keys rank js)"
  by (simp add: top_products_of_def top_keys_def sort_key_map take_map)

lemma length_top_products: "length (top_products_of rank js) \<le> 10"
  by (simp add: top_products_of_def)

lemma desc_key_le: "desc_key a \<le> desc_key b \<longleftrightarrow> ranks_before a b"
  by (cases a; cases b) (simp_all add: desc_key_def ranks_before_def)

lemma ranks_before_iff:
  "ranks_before a b \<longleftrightarrow> a = Null \<or> (\<exists>x y. a = Num x \<and> b = Num y \<and> y \<le> x)"
  by (cases a; cases b) (simp_all add: ranks_before_def)

lemma sorted_top_products:
  "sorted_wrt (\<lambda>x y. ranks_before (total_revenue x) (total_revenue y)) (top_products_of rank js)"
proof -
  let ?l = "sort_key (\<lambda>r. desc_key (total_revenue r))
              (map (\<lambda>k. group_row k js) (sort_key rank (remdups (map group_key js))))"
  have "sorted (map (\<lambda>r. desc_key (total_revenue r)) ?l)"
    by (rule sorted_sort_key)
  then have "sorted_wrt (\<lambda>x y. ranks_before (total_revenue x) (total_revenue y)) ?l"
    by (simp add: sorted_map desc_key_le)
  then show ?thesis
    unfolding top_products_of_def by (rule sorted_wrt_take)
qed

lemma top_keys_facts:
  "distinct (top_keys rank js)" "set (top_keys rank js) \<subseteq> group_key ` set js"
  "length (remdups (map group_key js)) \<le> 10 \<Longrightarrow> set (top_keys rank js) = group_key ` set js"
proof -
  show "distinct (top_keys rank js)" by (simp add: top_keys_def)
  show "set (top_keys rank js) \<subseteq> group_key ` set js"
    unfolding top_keys_def using set_take_subset[of 10] by fastforce
  show "set (top_keys rank js) = group_key ` set js"
    if "length (remdups (map group_key js)) \<le> 10"
    using that by (simp add: top_keys_def)
qed

lemma top_keys_largest:
  assumes "k \<in> group_key ` set js" "k \<notin> set (top_keys rank js)" "k' \<in> set (top_keys rank js)"
  shows "ranks_before (total_revenue (group_row k' js)) (total_revenue (group_row k js))"
proof -
  let ?f = "\<lambda>k. desc_key (total_revenue (group_row k js))"
  let ?l = "sort_key ?f (sort_key rank (remdups (map group_key js)))"
  have "sorted (map ?f (take 10 ?l @ drop 10 ?l))"
    by (simp del: append_take_drop_id add: append_take_drop_id[of 10 ?l])
  then have *: "\<forall>x\<in>set (take 10 ?l). \<forall>y\<in>set (drop 10 ?l). ?f x \<le> ?f y"
    unfolding map_append sorted_append by auto
  have "k \<in> set ?l" using assms(1) by simp
  then have "k \<in> set (take 10 ?l) \<union> set (drop 10 ?l)"
    by (metis append_take_drop_id set_append)
  with assms(2) have "k \<in> set (drop 10 ?l)" by (simp add: top_keys_def)
  moreover have "k' \<in> set (take 10 ?l)" using assms(3) by (simp add: top_keys_def)
  ultimately have "?f k' \<le> ?f k" using * by blast
  then show ?thesis by (simp add: desc_key_le)
qed

lemma set_join_items:
  "(b, i) \<in> set (join_items B I) \<longleftrightarrow> b \<in> set B \<and> i \<in> set I \<and> b_id b = bi_bill_id i"
  by (auto simp: join_items_def)

text \<open>Sums over rows that all hold a value.\<close>

lemma present_all:
  "\<forall>x\<in>set xs. f x \<noteq> None \<Longrightarrow> present (map f xs) = map (\<lambda>x. the (f x)) xs"
  by (induction xs) auto

lemma sql_sum_all:
  "\<forall>x\<in>set xs. f x \<noteq> None \<Longrightarrow> xs \<noteq> [] \<Longrightarrow>
     sql_sum (map f xs) = Num (sum_list (map (\<lambda>x. the (f x)) xs))"
  by (simp add: sql_sum_def present_all)

lemma priced_nonnull:
  assumes "priced j"
  shows "map_option rat_of_int (bi_quantity (snd j)) \<noteq> None"
    and "sql_times (bi_price (snd j)) (bi_quantity (snd j)) \<noteq> None"
    and "sql_times (bi_mrp (snd j)) (bi_quantity (snd j)) \<noteq> None"
  using assms by (auto simp: priced_def sql_times_def)

lemma priced_the:
  assumes "priced j"
  shows "the (map_option rat_of_int (bi_quantity (snd j))) = rat_of_int (the (bi_quantity (snd j)))"
    and "the (sql_times (bi_price (snd j)) (bi_quantity (snd j)))
           = the (bi_price (snd j)) * of_int (the (bi_quantity (snd j)))"
    and "the (sql_times (bi_mrp (snd j)) (bi_quantity (snd j)))
           = the (bi_mrp (snd j)) * of_int (the (bi_quantity (snd j)))"
  using assms by (auto simp: priced_def sql_times_def)

lemma group_row_priced:
  assumes "\<forall>j\<in>set js. priced j" "k \<in> group_key ` set js"
  shows "group_row k js =
     \<lparr>product_name = fst k,
      total_quantity =
        Num (of_int (sum_list (map (\<lambda>j. the (bi_quantity (snd j)))
                                (filter (\<lambda>j. group_key j = k) js)))),
      total_revenue =
        Num (sum_list (map (\<lambda>j. the (bi_price (snd j)) * of_int (the (bi_quantity (snd j))))
                        (filter (\<lambda>j. group_key j = k) js))),
      total_mrp_value =
        Num (sum_list (map (\<lambda>j. the (bi_mrp (snd j)) * of_int (the (bi_quantity (snd j))))
                        (filter (\<lambda>j. group_key j = k) js)))\<rparr>"
proof -
  let ?g = "filter (\<lambda>j. group_key j = k) js"
  have ne: "?g \<noteq> []"
    using assms(2) by (auto simp: filter_empty_conv)
  have pr: "\<And>j. j \<in> set ?g \<Longrightarrow> priced j" using assms(1) by simp
  have q: "\<forall>j\<in>set ?g. map_option rat_of_int (bi_quantity (snd j)) \<noteq> None"
    using pr priced_nonnull(1) by blast
  have r: "\<forall>j\<in>set ?g. sql_times (bi_price (snd j)) (bi_quantity (snd j)) \<noteq> None"
    using pr priced_nonnull(2) by blast
  have m: "\<forall>j\<in>set ?g. sql_times (bi_mrp (snd j)) (bi_quantity (snd j)) \<noteq> None"
    using pr priced_nonnull(3) by blast
  have q': "map (\<lambda>j. the (map_option rat_of_int (bi_quantity (snd j)))) ?g
      = map (\<lambda>j. rat_of_int (the (bi_quantity (snd j)))) ?g"
    by (rule map_cong[OF refl]) (simp add: priced_the(1)[OF pr])
  have r': "map (\<lambda>j. the (sql_times (bi_price (snd j)) (bi_quantity (snd j)))) ?g
      = map (\<lambda>j. the (bi_price (snd j)) * of_int (the (bi_quantity (snd j)))) ?g"
    by (rule map_cong[OF refl]) (simp add: priced_the(2)[OF pr])
  have m': "map (\<lambda>j. the (sql_times (bi_mrp (snd j)) (bi_quantity (snd j)))) ?g
      = map (\<lambda>j. the (bi_mrp (snd j)) * of_int (the (bi_quantity (snd j)))) ?g"
    by (rule map_cong[OF refl]) (simp add: priced_the(3)[OF pr])
  have s: "sum_list (map (\<lambda>j. rat_of_int (the (bi_quantity (snd j)))) xs)
      = of_int (sum_list (map (\<lambda>j. the (bi_quantity (snd j))) xs))" for xs :: "(bill_row \<times> bill_item_row) list"
    by (induction xs) simp_all
  show ?thesis
    unfolding group_row_def Let_def
    using sql_sum_all[OF q ne] sql_sum_all[OF r ne] sql_sum_all[OF m ne]
    by (simp add: q' r' m' s)
qed

lemma summary_all_bills:
  assumes "no_fault s (ncalls s) (ncalls s + 3)"
  shows "fst (getSalesSummary no_filter s)
           = \<lparr>status = 200,
              body = SummaryBody (summary_over (group_rank s) (bills s) (bill_items s))\<rparr>"
proof -
  have "date_filter s no_filter = Inr (in_range None None)"
    by (simp add: date_filter_def no_filter_def given_def bound_def)
  from getSalesSummary_ok[OF assms this] show ?thesis
    by (simp add: in_range_funs)
qed

lemma unpriced_store_fields:
  "fst (createBill unpriced_request example_store)
     = Some \<lparr>status = 201,
             body = BillBody
                      (Some \<lparr>cb_bill = new_bill example_store (Some 350) (Some 361) (Some 11)
                                         (Some ''u1''),
                             cb_items = map Some (bill_items unpriced_store)\<rparr>)\<rparr>"
  "bills unpriced_store
     = [new_bill example_store (Some 350) (Some 361) (Some 11) (Some ''u1'')]"
  "bill_items unpriced_store
     = [item_for 1 1 ''P1'' 100, item_for 2 1 ''P2'' 250,
        \<lparr>bi_id = 3, bi_bill_id = 1, bi_product_id = Some ''P0'', bi_name = Some ''P0'',
         bi_price = None, bi_mrp = Some 7, bi_quantity = Some 1\<rparr>]"
  "faults unpriced_store = (\<lambda>k. None)"
  "group_rank unpriced_store = (\<lambda>k. 0)"
  by (simp_all add: unpriced_store_def createBill_def try_block_def insert_all_def
      commit_and_read_def call_def observe_def client_release_def created_def complete_def
      new_bill_def new_item_def item_for_def unpriced_request_def unpriced_item_def
      example_store_def Let_def)

lemma example_stores_no_fault:
  "no_fault ranking_store (ncalls ranking_store) (ncalls ranking_store + 3)"
  "no_fault unpriced_store (ncalls unpriced_store) (ncalls unpriced_store + 3)"
  "no_fault tied_store (ncalls tied_store) (ncalls tied_store + 3)"
  by (simp_all add: no_fault_iff unpriced_store_fields)
     (simp_all add: ranking_store_def tied_store_def example_store_def)

lemmas rank_defs = summary_over_def join_items_def top_products_of_def desc_key_def
  group_key_def group_row_def sql_sum_def sql_times_def bill_at_def item_for_def
  example_store_def

lemma ranking_store_top:
  "s_top_products (summary_over (group_rank ranking_store) (bills ranking_store)
                     (bill_items ranking_store))
     = [\<lparr>product_name = Some ''P2'', total_quantity = Num 1, total_revenue = Num 250,
         total_mrp_value = Num 252\<rparr>,
        \<lparr>product_name = Some ''P1'', total_quantity = Num 1, total_revenue = Num 100,
         total_mrp_value = Num 102\<rparr>,
        \<lparr>product_name = Some ''P3'', total_quantity = Num 1, total_revenue = Num 50,
         total_mrp_value = Num 52\<rparr>]"
  by (simp add: rank_defs ranking_store_def)

lemma unpriced_store_top:
  "s_top_products (summary_over (group_rank unpriced_store) (bills unpriced_store)
                     (bill_items unpriced_store))
     = [\<lparr>product_name = Some ''P0'', total_quantity = Num 1, total_revenue = Null,
         total_mrp_value = Num 7\<rparr>,
        \<lparr>product_name = Some ''P2'', total_quantity = Num 1, total_revenue = Num 250,
         total_mrp_value = Num 252\<rparr>,
        \<lparr>product_name = Some ''P1'', total_quantity = Num 1, total_revenue = Num 100,
         total_mrp_value = Num 102\<rparr>]"
  by (simp add: unpriced_store_fields) (simp add: rank_defs new_bill_def)

text \<open>
  Groups of equal revenue come in the order of the store: here the group recorded second
  is listed first.
\<close>

lemma tied_groups_follow_the_store:
  "map product_name
     (s_top_products (summary_over (group_rank tied_store) (bills tied_store)
                        (bill_items tied_store)))
     = [Some ''T2'', Some ''T1'']"
  by (simp add: rank_defs tied_store_def)

text \<open>
  C4, as stated, does not hold of every response. The handler binds the price of an item as
  it comes in the request. A bill with an item sent without a price is recorded and answered
  with 201, and the summary then lists that product first with a revenue that is
  \<^verbatim>\<open>NULL\<close>, not a sum: \<^verbatim>\<open>SUM\<close> leaves out the product with the missing price, over no
  value it is \<^verbatim>\<open>NULL\<close>, and \<^verbatim>\<open>NULL\<close> comes first under \<^verbatim>\<open>ORDER BY ... DESC\<close>.
\<close>

theorem top_products_null_revenue_first:
  "price unpriced_item = None \<and>
   items unpriced_request = Array (map item_of_row (bill_items unpriced_store)) \<and>
   map_option status (fst (createBill unpriced_request example_store)) = Some 201 \<and>
   unpriced_store = snd (createBill unpriced_request example_store) \<and>
   map bi_price (bill_items unpriced_store) = [Some 100, Some 250, None] \<and>
   fst (getSalesSummary no_filter unpriced_store)
     = \<lparr>status = 200,
        body = SummaryBody (summary_over (group_rank unpriced_store) (bills unpriced_store)
                             (bill_items unpriced_store))\<rparr> \<and>
   map product_name
     (s_top_products (summary_over (group_rank unpriced_store) (bills unpriced_store)
                        (bill_items unpriced_store)))
     = [Some ''P0'', Some ''P2'', Some ''P1''] \<and>
   map total_revenue
     (s_top_products (summary_over (group_rank unpriced_store) (bills unpriced_store)
                        (bill_items unpriced_store)))
     = [Null, Num 250, Num 100]"
proof -
  have 1: "price unpriced_item = None"
    by (simp add: unpriced_item_def)
  have 2: "items unpriced_request = Array (map item_of_row (bill_items unpriced_store))"
    by (simp add: unpriced_store_fields)
       (simp add: unpriced_request_def unpriced_item_def item_of_row_def item_for_def)
  have 3: "map_option status (fst (createBill unpriced_request example_store)) = Some 201"
    by (simp add: unpriced_store_fields(1))
  have 4: "unpriced_store = snd (createBill unpriced_request example_store)"
    by (simp add: unpriced_store_def)
  have 5: "map bi_price (bill_items unpriced_store) = [Some 100, Some 250, None]"
    by (simp add: unpriced_store_fields) (simp add: item_for_def)
  have 6: "fst (getSalesSummary no_filter unpriced_store)
     = \<lparr>status = 200,
        body = SummaryBody (summary_over (group_rank unpriced_store) (bills unpriced_store)
                             (bill_items unpriced_store))\<rparr>"
    by (rule summary_all_bills[OF example_stores_no_fault(2)])
  have 7: "map product_name
     (s_top_products (summary_over (group_rank unpriced_store) (bills unpriced_store)
                        (bill_items unpriced_store)))
     = [Some ''P0'', Some ''P2'', Some ''P1'']"
    "map total_revenue
     (s_top_products (summary_over (group_rank unpriced_store) (bills unpriced_store)
                        (bill_items unpriced_store)))
     = [Null, Num 250, Num 100]"
    by (simp_all add: unpriced_store_top)
  from 1 2 3 4 5 6 7 show ?thesis
    by - (intro conjI, assumption+)
qed

text \<open>
  C4, amended. In every summary the handler returns, the ranking has at most ten entries and
  is in the store's descending order of revenue: an entry whose revenue is \<^verbatim>\<open>NULL\<close> comes
  before any other, and the others follow in descending order of their numbers; entries of
  equal revenue come in the order the store gives them. There is one entry per group of the
  joined item rows of the selected bills that agree on product name and product id, for
  distinct groups; an entry holds the name of its group and the SQL sums of quantity, of
  price times quantity and of mrp times quantity over the group, where a row with a missing
  factor is left out and a sum over no value is \<^verbatim>\<open>NULL\<close>. All groups are there when there
  are at most ten, and a group that is left out ranks no earlier than any entry listed.
  When every joined row has a price, an mrp and a quantity, every revenue is a number, the
  ranking is in descending order of these numbers, and the three sums run over all rows of
  the group.
\<close>

theorem top_products_ranked:
  assumes "getSalesSummary req s = (res, s')" "body res = SummaryBody sm"
  shows "length (s_top_products sm) \<le> 10 \<and>
         sorted_wrt (\<lambda>x y. ranks_before (total_revenue x) (total_revenue y))
           (s_top_products sm) \<and>
         (\<forall>a b. ranks_before a b \<longleftrightarrow>
                  a = Null \<or> (\<exists>x y. a = Num x \<and> b = Num y \<and> y \<le> x)) \<and>
         (\<forall>xs. sql_sum xs = (if present xs = [] then Null else Num (sum_list (present xs)))) \<and>
         (\<exists>B js ks.
            select_bills s FromBillsJoinItems (fst (build_filter req)) (snd (build_filter req))
              = Inr B \<and>
            js = join_items B (bill_items s) \<and> ks = top_keys (group_rank s) js \<and>
            (\<forall>b i. (b, i) \<in> set js \<longleftrightarrow>
                     b \<in> set B \<and> i \<in> set (bill_items s) \<and> b_id b = bi_bill_id i) \<and>
            (\<forall>j. group_key j = (bi_name (snd j), bi_product_id (snd j))) \<and>
            distinct ks \<and> set ks \<subseteq> group_key ` set js \<and>
            (length (remdups (map group_key js)) \<le> 10 \<longrightarrow> set ks = group_key ` set js) \<and>
            (\<forall>k k'. k \<in> group_key ` set js \<and> k \<notin> set ks \<and> k' \<in> set ks \<longrightarrow>
               ranks_before (total_revenue (group_row k' js)) (total_revenue (group_row k js))) \<and>
            s_top_products sm =
              map (\<lambda>k. \<lparr>product_name = fst k,
                        total_quantity =
                          sql_sum (map (\<lambda>j. map_option of_int (bi_quantity (snd j)))
                                     (filter (\<lambda>j. group_key j = k) js)),
                        total_revenue =
                          sql_sum (map (\<lambda>j. sql_times (bi_price (snd j)) (bi_quantity (snd j)))
                                     (filter (\<lambda>j. group_key j = k) js)),
                        total_mrp_value =
                          sql_sum (map (\<lambda>j. sql_times (bi_mrp (snd j)) (bi_quantity (snd j)))
                                     (filter (\<lambda>j. group_key j = k) js))\<rparr>)
                  ks \<and>
            ((\<forall>j\<in>set js. priced j) \<longrightarrow>
               sorted_wrt (\<lambda>x y. \<exists>a b. total_revenue x = Num a \<and> total_revenue y = Num b \<and>
                                      b \<le> a)
                 (s_top_products sm) \<and>
               s_top_products sm =
                 map (\<lambda>k. \<lparr>product_name = fst k,
                           total_quantity =
                             Num (of_int (sum_list (map (\<lambda>j. the (bi_quantity (snd j)))
                                                     (filter (\<lambda>j. group_key j = k) js)))),
                           total_revenue =
                             Num (sum_list
                                    (map (\<lambda>j. the (bi_price (snd j)) *
                                               of_int (the (bi_quantity (snd j))))
                                       (filter (\<lambda>j. group_key j = k) js))),
                           total_mrp_value =
                             Num (sum_list
                                    (map (\<lambda>j. the (bi_mrp (snd j)) *
                                               of_int (the (bi_quantity (snd j))))
                                       (filter (\<lambda>j. group_key j = k) js)))\<rparr>)
                     ks))"
proof -
  from getSalesSummary_body[OF assms] obtain P where
    P: "date_filter s req = Inr P"
      "sm = summary_over (group_rank s) (filter P (bills s)) (bill_items s)"
    by blast
  define B where "B = filter P (bills s)"
  define js where "js = join_items B (bill_items s)"
  define ks where "ks = top_keys (group_rank s) js"
  have top: "s_top_products sm = top_products_of (group_rank s) js"
    by (simp add: P(2) summary_over_def js_def B_def)
  have topk: "s_top_products sm = map (\<lambda>k. group_row k js) ks"
    by (simp add: top top_products_of_keys ks_def)
  have sel: "select_bills s FromBillsJoinItems (fst (build_filter req)) (snd (build_filter req))
      = Inr B"
    by (simp add: select_bills_joined P(1) B_def)
  have 1: "length (s_top_products sm) \<le> 10"
    unfolding top by (rule length_top_products)
  have 2: "sorted_wrt (\<lambda>x y. ranks_before (total_revenue x) (total_revenue y))
             (s_top_products sm)"
    unfolding top by (rule sorted_top_products)
  have rb: "\<forall>a b. ranks_before a b \<longleftrightarrow>
                  a = Null \<or> (\<exists>x y. a = Num x \<and> b = Num y \<and> y \<le> x)"
    by (intro allI ranks_before_iff)
  have ss: "\<forall>xs. sql_sum xs = (if present xs = [] then Null else Num (sum_list (present xs)))"
    by (simp add: sql_sum_def)
  have 3: "\<forall>b i. (b, i) \<in> set js \<longleftrightarrow>
                     b \<in> set B \<and> i \<in> set (bill_items s) \<and> b_id b = bi_bill_id i"
    unfolding js_def by (simp add: set_join_items)
  have 4: "\<forall>j. group_key j = (bi_name (snd j), bi_product_id (snd j))"
    by (simp add: group_key_def)
  have d: "distinct ks" and sub: "set ks \<subseteq> group_key ` set js"
    unfolding ks_def by (rule top_keys_facts)+
  have 5: "length (remdups (map group_key js)) \<le> 10 \<longrightarrow> set ks = group_key ` set js"
    unfolding ks_def using top_keys_facts(3) by blast
  have 6: "\<forall>k k'. k \<in> group_key ` set js \<and> k \<notin> set ks \<and> k' \<in> set ks \<longrightarrow>
               ranks_before (total_revenue (group_row k' js)) (total_revenue (group_row k js))"
    unfolding ks_def using top_keys_largest by blast
  have 7: "s_top_products sm =
              map (\<lambda>k. \<lparr>product_name = fst k,
                        total_quantity =
                          sql_sum (map (\<lambda>j. map_option of_int (bi_quantity (snd j)))
                                     (filter (\<lambda>j. group_key j = k) js)),
                        total_revenue =
                          sql_sum (map (\<lambda>j. sql_times (bi_price (snd j)) (bi_quantity (snd j)))
                                     (filter (\<lambda>j. group_key j = k) js)),
                        total_mrp_value =
                          sql_sum (map (\<lambda>j. sql_times (bi_mrp (snd j)) (bi_quantity (snd j)))
                                     (filter (\<lambda>j. group_key j = k) js))\<rparr>)
                  ks"
    unfolding topk by (simp add: group_row_def Let_def)
  have 8: "(\<forall>j\<in>set js. priced j) \<longrightarrow>
               sorted_wrt (\<lambda>x y. \<exists>a b. total_revenue x = Num a \<and> total_revenue y = Num b \<and>
                                      b \<le> a)
                 (s_top_products sm) \<and>
               s_top_products sm =
                 map (\<lambda>k. \<lparr>product_name = fst k,
                           total_quantity =
                             Num (of_int (sum_list (map (\<lambda>j. the (bi_quantity (snd j)))
                                                     (filter (\<lambda>j. group_key j = k) js)))),
                           total_revenue =
                             Num (sum_list
                                    (map (\<lambda>j. the (bi_price (snd j)) *
                                               of_int (the (bi_quantity (snd j))))
                                       (filter (\<lambda>j. group_key j = k) js))),
                           total_mrp_value =
                             Num (sum_list
                                    (map (\<lambda>j. the (bi_mrp (snd j)) *
                                               of_int (the (bi_quantity (snd j))))
                                       (filter (\<lambda>j. group_key j = k) js)))\<rparr>)
                     ks"
  proof (intro impI conjI)
    assume pr: "\<forall>j\<in>set js. priced j"
    have rows: "\<And>k. k \<in> set ks \<Longrightarrow> group_row k js =
       \<lparr>product_name = fst k,
        total_quantity =
          Num (of_int (sum_list (map (\<lambda>j. the (bi_quantity (snd j)))
                                  (filter (\<lambda>j. group_key j = k) js)))),
        total_revenue =
          Num (sum_list (map (\<lambda>j. the (bi_price (snd j)) * of_int (the (bi_quantity (snd j))))
                          (filter (\<lambda>j. group_key j = k) js))),
        total_mrp_value =
          Num (sum_list (map (\<lambda>j. the (bi_mrp (snd j)) * of_int (the (bi_quantity (snd j))))
                          (filter (\<lambda>j. group_key j = k) js)))\<rparr>"
      using group_row_priced[OF pr] sub by blast
    show "s_top_products sm =
                 map (\<lambda>k. \<lparr>product_name = fst k,
                           total_quantity =
                             Num (of_int (sum_list (map (\<lambda>j. the (bi_quantity (snd j)))
                                                     (filter (\<lambda>j. group_key j = k) js)))),
                           total_revenue =
                             Num (sum_list
                                    (map (\<lambda>j. the (bi_price (snd j)) *
                                               of_int (the (bi_quantity (snd j))))
                                       (filter (\<lambda>j. group_key j = k) js))),
                           total_mrp_value =
                             Num (sum_list
                                    (map (\<lambda>j. the (bi_mrp (snd j)) *
                                               of_int (the (bi_quantity (snd j))))
                                       (filter (\<lambda>j. group_key j = k) js)))\<rparr>)
                     ks"
      unfolding topk by (rule map_cong[OF refl]) (rule rows)
    have nums: "\<forall>e\<in>set (s_top_products sm). \<exists>a. total_revenue e = Num a"
      unfolding topk using rows by auto
    show "sorted_wrt (\<lambda>x y. \<exists>a b. total_revenue x = Num a \<and> total_revenue y = Num b \<and> b \<le> a)
                 (s_top_products sm)"
      using 2 nums
      by (rule_tac sorted_wrt_mono_rel[where P = "\<lambda>x y. ranks_before (total_revenue x) (total_revenue y)"])
        (auto simp: ranks_before_iff)
  qed
  have "\<exists>B js ks.
            select_bills s FromBillsJoinItems (fst (build_filter req)) (snd (build_filter req))
              = Inr B \<and>
            js = join_items B (bill_items s) \<and> ks = top_keys (group_rank s) js \<and>
            (\<forall>b i. (b, i) \<in> set js \<longleftrightarrow>
                     b \<in> set B \<and> i \<in> set (bill_items s) \<and> b_id b = bi_bill_id i) \<and>
            (\<forall>j. group_key j = (bi_name (snd j), bi_product_id (snd j))) \<and>
            distinct ks \<and> set ks \<subseteq> group_key ` set js \<and>
            (length (remdups (map group_key js)) \<le> 10 \<longrightarrow> set ks = group_key ` set js) \<and>
            (\<forall>k k'. k \<in> group_key ` set js \<and> k \<notin> set ks \<and> k' \<in> set ks \<longrightarrow>
               ranks_before (total_revenue (group_row k' js)) (total_revenue (group_row k js))) \<and>
            s_top_products sm =
              map (\<lambda>k. \<lparr>product_name = fst k,
                        total_quantity =
                          sql_sum (map (\<lambda>j. map_option of_int (bi_quantity (snd j)))
                                     (filter (\<lambda>j. group_key j = k) js)),
                        total_revenue =
                          sql_sum (map (\<lambda>j. sql_times (bi_price (snd j)) (bi_quantity (snd j)))
                                     (filter (\<lambda>j. group_key j = k) js)),
                        total_mrp_value =
                          sql_sum (map (\<lambda>j. sql_times (bi_mrp (snd j)) (bi_quantity (snd j)))
                                     (filter (\<lambda>j. group_key j = k) js))\<rparr>)
                  ks \<and>
            ((\<forall>j\<in>set js. priced j) \<longrightarrow>
               sorted_wrt (\<lambda>x y. \<exists>a b. total_revenue x = Num a \<and> total_revenue y = Num b \<and>
                                      b \<le> a)
                 (s_top_products sm) \<and>
               s_top_products sm =
                 map (\<lambda>k. \<lparr>product_name = fst k,
                           total_quantity =
                             Num (of_int (sum_list (map (\<lambda>j. the (bi_quantity (snd j)))
                                                     (filter (\<lambda>j. group_key j = k) js)))),
                           total_revenue =
                             Num (sum_list
                                    (map (\<lambda>j. the (bi_price (snd j)) *
                                               of_int (the (bi_quantity (snd j))))
                                       (filter (\<lambda>j. group_key j = k) js))),
                           total_mrp_value =
                             Num (sum_list
                                    (map (\<lambda>j. the (bi_mrp (snd j)) *
                                               of_int (the (bi_quantity (snd j))))
                                       (filter (\<lambda>j. group_key j = k) js)))\<rparr>)
                     ks)"
    using sel js_def ks_def 3 4 d sub 5 6 7 8
    by - (rule exI[of _ B], rule exI[of _ js], rule exI[of _ ks], intro conjI, assumption+)
  with 1 2 rb ss show ?thesis
    by - (intro conjI, assumption+)
qed

theorem top_products_ranked_witness:
  "body (fst (getSalesSummary no_filter ranking_store))
     = SummaryBody (summary_over (group_rank ranking_store) (bills ranking_store)
                      (bill_items ranking_store)) \<and>
   select_bills ranking_store FromBillsJoinItems (fst (build_filter no_filter))
       (snd (build_filter no_filter))
     = Inr (bills ranking_store) \<and>
   list_all priced (join_items (bills ranking_store) (bill_items ranking_store)) \<and>
   s_top_products (summary_over (group_rank ranking_store) (bills ranking_store)
                     (bill_items ranking_store))
     = [\<lparr>product_name = Some ''P2'', total_quantity = Num 1, total_revenue = Num 250,
         total_mrp_value = Num 252\<rparr>,
        \<lparr>product_name = Some ''P1'', total_quantity = Num 1, total_revenue = Num 100,
         total_mrp_value = Num 102\<rparr>,
        \<lparr>product_name = Some ''P3'', total_quantity = Num 1, total_revenue = Num 50,
         total_mrp_value = Num 52\<rparr>] \<and>
   length (s_top_products (summary_over (group_rank ranking_store) (bills ranking_store)
                             (bill_items ranking_store))) \<le> 10 \<and>
   sorted_wrt (\<lambda>x y. ranks_before (total_revenue x) (total_revenue y))
     (s_top_products (summary_over (group_rank ranking_store) (bills ranking_store)
                        (bill_items ranking_store))) \<and>
   sorted_wrt (\<lambda>x y. \<exists>a b. total_revenue x = Num a \<and> total_revenue y = Num b \<and> b \<le> a)
     (s_top_products (summary_over (group_rank ranking_store) (bills ranking_store)
                        (bill_items ranking_store)))"
proof -
  let ?sm = "summary_over (group_rank ranking_store) (bills ranking_store)
               (bill_items ranking_store)"
  have b: "body (fst (getSalesSummary no_filter ranking_store)) = SummaryBody ?sm"
    by (simp add: summary_all_bills[OF example_stores_no_fault(1)])
  have r: "getSalesSummary no_filter ranking_store
      = (fst (getSalesSummary no_filter ranking_store),
         snd (getSalesSummary no_filter ranking_store))"
    by simp
  note A = top_products_ranked[OF r b]
  have sel: "select_bills ranking_store FromBillsJoinItems (fst (build_filter no_filter))
       (snd (build_filter no_filter)) = Inr (bills ranking_store)"
    by (simp add: select_bills_joined date_filter_def no_filter_def given_def bound_def
        in_range_funs)
  have p: "list_all priced (join_items (bills ranking_store) (bill_items ranking_store))"
    by (simp add: ranking_store_def join_items_def priced_def bill_at_def item_for_def)
  from A have l: "length (s_top_products ?sm) \<le> 10"
    and o: "sorted_wrt (\<lambda>x y. ranks_before (total_revenue x) (total_revenue y))
              (s_top_products ?sm)"
    by - (elim conjE, assumption)+
  from A obtain B js ks where
    B: "select_bills ranking_store FromBillsJoinItems (fst (build_filter no_filter))
          (snd (build_filter no_filter)) = Inr B"
    and js: "js = join_items B (bill_items ranking_store)"
    and pr: "(\<forall>j\<in>set js. priced j) \<longrightarrow>
         sorted_wrt (\<lambda>x y. \<exists>a b. total_revenue x = Num a \<and> total_revenue y = Num b \<and> b \<le> a)
           (s_top_products ?sm) \<and>
         s_top_products ?sm =
           map (\<lambda>k. \<lparr>product_name = fst k,
                     total_quantity =
                       Num (of_int (sum_list (map (\<lambda>j. the (bi_quantity (snd j)))
                                               (filter (\<lambda>j. group_key j = k) js)))),
                     total_revenue =
                       Num (sum_list
                              (map (\<lambda>j. the (bi_price (snd j)) *
                                         of_int (the (bi_quantity (snd j))))
                                 (filter (\<lambda>j. group_key j = k) js))),
                     total_mrp_value =
                       Num (sum_list
                              (map (\<lambda>j. the (bi_mrp (snd j)) *
                                         of_int (the (bi_quantity (snd j))))
                                 (filter (\<lambda>j. group_key j = k) js)))\<rparr>)
               ks"
    by (elim conjE exE) (rule that, assumption+)
  from B sel have "B = bills ranking_store" by simp
  with js p have "\<forall>j\<in>set js. priced j" by (simp add: list_all_iff)
  with pr have n: "sorted_wrt (\<lambda>x y. \<exists>a b. total_revenue x = Num a \<and> total_revenue y = Num b \<and>
                       b \<le> a) (s_top_products ?sm)"
    by blast
  from b sel p ranking_store_top l o n show ?thesis by - (intro conjI, assumption+)
qed

end
